theory Spec2Isabelle
  imports Main "HOL-Library.Word"
begin

section \<open>Strings and byte buffers\<close>

text \<open>
  A JavaScript string is a sequence of UTF-16 code units; a code unit is modelled by its
  numeric value. An \<^verbatim>\<open>ArrayBuffer\<close> is a sequence of bytes. \<open>str\<close> turns an
  ASCII literal into the code units it denotes.
\<close>

type_synonym jstring = "nat list"
type_synonym buffer = "8 word list"

definition str :: "string \<Rightarrow> jstring" where
  "str s = map of_char s"

text \<open>\<^verbatim>\<open>s.endsWith(t)\<close>, \<^verbatim>\<open>s.includes(t)\<close>, \<^verbatim>\<open>s.split('?')[0]\<close> and
  \<^verbatim>\<open>s.split('/').pop()\<close>.\<close>

definition endsWith :: "jstring \<Rightarrow> jstring \<Rightarrow> bool" where
  "endsWith s t \<longleftrightarrow> length t \<le> length s \<and> drop (length s - length t) s = t"

fun str_includes :: "jstring \<Rightarrow> jstring \<Rightarrow> bool" where
  "str_includes [] t = (t = [])"
| "str_includes (c # cs) t = (take (length t) (c # cs) = t \<or> str_includes cs t)"

definition split_first :: "nat \<Rightarrow> jstring \<Rightarrow> jstring" where
  "split_first sep s = takeWhile (\<lambda>c. c \<noteq> sep) s"

definition split_pop :: "nat \<Rightarrow> jstring \<Rightarrow> jstring" where
  "split_pop sep s = rev (takeWhile (\<lambda>c. c \<noteq> sep) (rev s))"

text \<open>Template-literal rendering of a non-negative integer: its decimal digits.\<close>

fun decimal :: "nat \<Rightarrow> jstring" where
  "decimal n = (if n < 10 then [48 + n] else decimal (n div 10) @ [48 + n mod 10])"

declare decimal.simps [simp del]

section \<open>The built-ins \<^verbatim>\<open>decodeURIComponent\<close> and \<^verbatim>\<open>encodeURIComponent\<close>\<close>

text \<open>
  Both follow the ECMAScript algorithms \<^verbatim>\<open>Decode\<close> and \<^verbatim>\<open>Encode\<close>; the result
  \<open>None\<close> stands for the \<^verbatim>\<open>URIError\<close> they throw on malformed input.
\<close>

definition hexval :: "nat \<Rightarrow> nat option" where
  "hexval c =
     (if 48 \<le> c \<and> c \<le> 57 then Some (c - 48)
      else if 65 \<le> c \<and> c \<le> 70 then Some (c - 55)
      else if 97 \<le> c \<and> c \<le> 102 then Some (c - 87)
      else None)"

text \<open>One escape \<^verbatim>\<open>%XX\<close> at the head of the string: its octet and the rest.\<close>

fun take_escape :: "jstring \<Rightarrow> (nat \<times> jstring) option" where
  "take_escape (p # h1 # h2 # rest) =
     (if p = 37 then
        (case hexval h1 of
           None \<Rightarrow> None
         | Some a \<Rightarrow> (case hexval h2 of None \<Rightarrow> None | Some b \<Rightarrow> Some (16 * a + b, rest)))
      else None)"
| "take_escape _ = None"

fun take_escapes :: "nat \<Rightarrow> jstring \<Rightarrow> (nat list \<times> jstring) option" where
  "take_escapes 0 s = Some ([], s)"
| "take_escapes (Suc n) s =
     (case take_escape s of
        None \<Rightarrow> None
      | Some (b, r) \<Rightarrow>
          (case take_escapes n r of None \<Rightarrow> None | Some (bs, r') \<Rightarrow> Some (b # bs, r')))"

text \<open>The number of leading 1 bits of an octet (5 stands for five or more).\<close>

definition leading_ones :: "nat \<Rightarrow> nat" where
  "leading_ones b =
     (if b < 128 then 0 else if b < 192 then 1 else if b < 224 then 2
      else if b < 240 then 3 else if b < 248 then 4 else 5)"

text \<open>
  The code point of a multi-octet UTF-8 sequence, \<open>None\<close> when the sequence is not the
  valid encoding of a code point (a continuation octet outside \<^verbatim>\<open>80..BF\<close>, an overlong
  form, a surrogate, a value above \<^verbatim>\<open>10FFFF\<close>).
\<close>

definition is_cont :: "nat \<Rightarrow> bool" where
  "is_cont b \<longleftrightarrow> 128 \<le> b \<and> b < 192"

fun utf8_value :: "nat list \<Rightarrow> nat option" where
  "utf8_value [b0, b1] =
     (let v = (b0 - 192) * 64 + (b1 - 128)
      in if is_cont b1 \<and> 128 \<le> v then Some v else None)"
| "utf8_value [b0, b1, b2] =
     (let v = (b0 - 224) * 4096 + (b1 - 128) * 64 + (b2 - 128)
      in if is_cont b1 \<and> is_cont b2 \<and> 2048 \<le> v \<and> \<not> (55296 \<le> v \<and> v \<le> 57343)
         then Some v else None)"
| "utf8_value [b0, b1, b2, b3] =
     (let v = (b0 - 240) * 262144 + (b1 - 128) * 4096 + (b2 - 128) * 64 + (b3 - 128)
      in if is_cont b1 \<and> is_cont b2 \<and> is_cont b3 \<and> 65536 \<le> v \<and> v \<le> 1114111
         then Some v else None)"
| "utf8_value _ = None"

definition utf16 :: "nat \<Rightarrow> jstring" where
  "utf16 v =
     (if v < 65536 then [v]
      else [55296 + (v - 65536) div 1024, 56320 + (v - 65536) mod 1024])"

lemma take_escape_length:
  "take_escape s = Some (b, r) \<Longrightarrow> length s = length r + 3"
  by (induction s rule: take_escape.induct) (auto split: if_splits option.splits)

lemma take_escapes_length:
  "take_escapes n s = Some (bs, r) \<Longrightarrow> length r \<le> length s"
proof (induction n arbitrary: s bs r)
  case 0
  then show ?case by simp
next
  case (Suc n)
  then show ?case
    by (fastforce split: option.splits dest: take_escape_length)
qed

function decodeURIComponent :: "jstring \<Rightarrow> jstring option" where
  "decodeURIComponent [] = Some []"
| "decodeURIComponent (c # cs) =
     (if c \<noteq> 37 then map_option ((#) c) (decodeURIComponent cs)
      else
        (case take_escape (c # cs) of
           None \<Rightarrow> None
         | Some (b, r) \<Rightarrow>
             (if leading_ones b = 0 then map_option ((#) b) (decodeURIComponent r)
              else if leading_ones b = 1 \<or> leading_ones b > 4 then None
              else
                (case take_escapes (leading_ones b - 1) r of
                   None \<Rightarrow> None
                 | Some (bs, r') \<Rightarrow>
                     (case utf8_value (b # bs) of
                        None \<Rightarrow> None
                      | Some v \<Rightarrow> map_option ((@) (utf16 v)) (decodeURIComponent r'))))))"
  by pat_completeness auto
termination
proof (relation "measure length")
  show "wf (measure length)" by simp
next
  fix c :: nat and cs
  show "(cs, c # cs) \<in> measure length" by simp
next
  fix c :: nat and cs x2 x y
  assume "take_escape (c # cs) = Some x2" "(x, y) = x2"
  then have "take_escape (c # cs) = Some (x, y)" by simp
  from take_escape_length [OF this] show "(y, c # cs) \<in> measure length" by simp
next
  fix c :: nat and cs x2 x y x2a xa ya x2b
  assume "take_escape (c # cs) = Some x2" "(x, y) = x2"
    and "take_escapes (leading_ones x - 1) y = Some x2a" "(xa, ya) = x2a"
  then have a: "take_escape (c # cs) = Some (x, y)"
    and b: "take_escapes (leading_ones x - 1) y = Some (xa, ya)" by simp_all
  from take_escape_length [OF a] take_escapes_length [OF b]
  show "(ya, c # cs) \<in> measure length" by simp
qed

section \<open>URL matcher\<close>

text \<open>
  \<^verbatim>\<open>normalizeUrl\<close> on a string argument: the query is cut off, the rest is decoded, and
  when decoding throws the argument itself is returned.
\<close>

definition normalizeUrl :: "jstring \<Rightarrow> jstring" where
  "normalizeUrl url =
     (case decodeURIComponent (split_first 63 url) of Some decoded \<Rightarrow> decoded | None \<Rightarrow> url)"

definition urlsMatch :: "jstring \<Rightarrow> jstring \<Rightarrow> bool" where
  "urlsMatch url1 url2 =
     (let norm1 = normalizeUrl url1; norm2 = normalizeUrl url2
      in if norm1 = norm2 then True
         else if endsWith norm1 norm2 \<or> endsWith norm2 norm1 then True
         else split_pop 47 norm1 = split_pop 47 norm2)"

section \<open>Merge engine\<close>

text \<open>
  Errors are values. \<open>Error\<close> is \<^verbatim>\<open>new Error(message)\<close> thrown by the program itself,
  \<open>RangeError\<close> is what \<^verbatim>\<open>Uint8Array.prototype.set\<close> throws on an out-of-range write,
  \<open>TypeError\<close> is what the language throws on a property access that is not allowed,
  and \<open>HostError\<close> is any reason with which a promise of the host (\<^verbatim>\<open>fetch\<close>,
  \<^verbatim>\<open>arrayBuffer()\<close>) rejects.
\<close>

datatype js_error = Error jstring | RangeError | TypeError | HostError jstring

record response =
  ok :: bool
  status :: nat
  arrayBuffer :: "js_error + buffer"

text \<open>
  The original network primitive \<^verbatim>\<open>window.originalFetch(url, ...args)\<close>: the promise it
  returns either rejects or resolves with a response.
\<close>

type_synonym 'a fetch_fn = "jstring \<Rightarrow> 'a list \<Rightarrow> js_error + response"

text \<open>
  \<^verbatim>\<open>Promise.all\<close> over promises whose outcomes are \<open>rs\<close>. The list \<open>order\<close> names the
  positions in the order in which the promises settle; positions that it does not name
  settle after those, in the order of their positions. The result rejects with the reason
  of the first promise that settles rejected; otherwise it resolves with the values in
  the order of the positions, whatever the order of settling.
\<close>

definition rejections :: "nat list \<Rightarrow> (js_error + 'v) list \<Rightarrow> js_error list" where
  "rejections order rs =
     List.map_filter
       (\<lambda>i. if i < length rs then (case rs ! i of Inl e \<Rightarrow> Some e | Inr v \<Rightarrow> None) else None)
       order"

definition fulfilled :: "(js_error + 'v) list \<Rightarrow> 'v list" where
  "fulfilled rs = List.map_filter (\<lambda>r. case r of Inl e \<Rightarrow> None | Inr v \<Rightarrow> Some v) rs"

definition promise_all :: "nat list \<Rightarrow> (js_error + 'v) list \<Rightarrow> js_error + 'v list" where
  "promise_all order rs =
     (case rejections (order @ [0..<length rs]) rs of
        e # es \<Rightarrow> Inl e
      | [] \<Rightarrow> Inr (fulfilled rs))"

text \<open>The part reference \<^verbatim>\<open>`${filePath}.part${i}`\<close>.\<close>

definition part_path :: "jstring \<Rightarrow> nat \<Rightarrow> jstring" where
  "part_path filePath i = filePath @ str ''.part'' @ decimal i"

text \<open>The loop over the responses: the first one that is not \<^verbatim>\<open>ok\<close> throws.\<close>

fun check_responses :: "jstring list \<Rightarrow> response list \<Rightarrow> js_error option" where
  "check_responses (p # ps) (r # rs) =
     (if \<not> ok r then Some (Error (str ''Failed to load '' @ p @ str '': '' @ decimal (status r)))
      else check_responses ps rs)"
| "check_responses _ _ = None"

text \<open>\<^verbatim>\<open>mergedArray.set(new Uint8Array(buffer), offset)\<close>.\<close>

definition typed_array_set :: "buffer \<Rightarrow> buffer \<Rightarrow> nat \<Rightarrow> js_error + buffer" where
  "typed_array_set arr src offset =
     (if offset + length src > length arr then Inl RangeError
      else Inr (take offset arr @ src @ drop (offset + length src) arr))"

fun copy_buffers :: "buffer list \<Rightarrow> nat \<Rightarrow> buffer \<Rightarrow> js_error + buffer" where
  "copy_buffers [] offset mergedArray = Inr mergedArray"
| "copy_buffers (b # bs) offset mergedArray =
     (case typed_array_set mergedArray b offset of
        Inl e \<Rightarrow> Inl e
      | Inr mergedArray' \<Rightarrow> copy_buffers bs (offset + length b) mergedArray')"

text \<open>
  \<^verbatim>\<open>mergeSplitFiles(filePath, numParts)\<close>. \<open>fetch_order\<close> and \<open>read_order\<close> are the orders
  in which the part fetches and the body reads settle. The \<^verbatim>\<open>catch\<close> block logs and
  rethrows, so the error is returned as it is.
\<close>

definition mergeSplitFiles ::
  "'a fetch_fn \<Rightarrow> nat list \<Rightarrow> nat list \<Rightarrow> jstring \<Rightarrow> nat \<Rightarrow> js_error + buffer" where
  "mergeSplitFiles originalFetch fetch_order read_order filePath numParts =
     (let parts = map (part_path filePath) [1..<Suc numParts]
      in case promise_all fetch_order (map (\<lambda>part. originalFetch part []) parts) of
           Inl err \<Rightarrow> Inl err
         | Inr responses \<Rightarrow>
             (case check_responses parts responses of
                Some err \<Rightarrow> Inl err
              | None \<Rightarrow>
                  (case promise_all read_order (map arrayBuffer responses) of
                     Inl err \<Rightarrow> Inl err
                   | Inr buffers \<Rightarrow>
                       (let totalSize = foldl (\<lambda>sum buf. sum + length buf) 0 buffers;
                            mergedArray = replicate totalSize 0
                        in copy_buffers buffers 0 mergedArray))))"


section \<open>Configuration, status map and buffer store\<close>

record file_spec =
  name :: jstring
  parts :: nat

record config =
  files :: "file_spec list"
  basePath :: jstring
  debug :: bool
  autoDetect :: bool

text \<open>\<^verbatim>\<open>config.basePath ? `${config.basePath}${fileName}` : fileName\<close>\<close>

definition full_path :: "config \<Rightarrow> jstring \<Rightarrow> jstring" where
  "full_path cfg fileName = (if basePath cfg \<noteq> [] then basePath cfg @ fileName else fileName)"

datatype merge_status = Merging | Ready | Failed

text \<open>
  \<^verbatim>\<open>mergeStatus\<close> is a plain object created empty, whose prototype is
  \<^verbatim>\<open>Object.prototype\<close>, and it only ever holds the three strings. A read compares the value
  with \<^verbatim>\<open>'ready'\<close>; no member inherited from \<^verbatim>\<open>Object.prototype\<close> is a string, so a
  read sees the own properties only, and these are a map. An assignment creates or updates
  an own property, except under the name \<^verbatim>\<open>__proto__\<close>: that name is an accessor of
  \<^verbatim>\<open>Object.prototype\<close>, whose setter ignores a string, so the assignment does nothing.
\<close>

definition proto_key :: jstring where
  "proto_key = str ''__proto__''"

definition status_set ::
  "jstring \<Rightarrow> merge_status \<Rightarrow> (jstring \<rightharpoonup> merge_status) \<Rightarrow> (jstring \<rightharpoonup> merge_status)" where
  "status_set k v m = (if k = proto_key then m else m(k \<mapsto> v))"

text \<open>
  \<^verbatim>\<open>window.mergedFiles\<close> is an object used as a dictionary of buffers. \<open>entries\<close> are its
  own properties in the order in which \<^verbatim>\<open>Object.entries\<close> enumerates them (array-index
  keys first, in ascending numeric order, then the other keys in the order of their
  creation; assigning to an existing key keeps its place). \<open>proto\<close> is its prototype:
  \<open>None\<close> while that is \<^verbatim>\<open>Object.prototype\<close>, and \<open>Some b\<close> once an assignment to
  \<^verbatim>\<open>__proto__\<close> has made the buffer \<open>b\<close> the prototype.
\<close>

record store =
  entries :: "(jstring \<times> buffer) list"
  proto :: "buffer option"

definition array_index :: "jstring \<Rightarrow> nat option" where
  "array_index k =
     (if k \<noteq> [] \<and> list_all (\<lambda>c. 48 \<le> c \<and> c \<le> 57) k \<and> (length k = 1 \<or> hd k \<noteq> 48)
      then (let n = foldl (\<lambda>a c. 10 * a + (c - 48)) 0 k
            in if n < 4294967295 then Some n else None)
      else None)"

fun insert_index :: "nat \<Rightarrow> jstring \<Rightarrow> 'v \<Rightarrow> (jstring \<times> 'v) list \<Rightarrow> (jstring \<times> 'v) list" where
  "insert_index n k v [] = [(k, v)]"
| "insert_index n k v ((k', v') # m) =
     (case array_index k' of
        Some n' \<Rightarrow> if n' < n then (k', v') # insert_index n k v m else (k, v) # (k', v') # m
      | None \<Rightarrow> (k, v) # (k', v') # m)"

definition obj_set :: "jstring \<Rightarrow> 'v \<Rightarrow> (jstring \<times> 'v) list \<Rightarrow> (jstring \<times> 'v) list" where
  "obj_set k v m =
     (if map_of m k \<noteq> None then map (\<lambda>(k', v'). if k' = k then (k', v) else (k', v')) m
      else (case array_index k of Some n \<Rightarrow> insert_index n k v m | None \<Rightarrow> m @ [(k, v)]))"

text \<open>
  What a property read can return: a buffer, or an object inherited along the prototype
  chain that is not a buffer. Such an object is a built-in function, and \<open>Inherited n\<close>
  records its \<^verbatim>\<open>length\<close> property \<open>n\<close>, or it is \<^verbatim>\<open>Object.prototype\<close> itself, which has no
  \<^verbatim>\<open>length\<close> (\<open>Inherited 0\<close>). It has no \<^verbatim>\<open>byteLength\<close>.
\<close>

datatype js_value = Buffer buffer | Inherited nat

text \<open>
  The methods of \<^verbatim>\<open>Object.prototype\<close> with their \<^verbatim>\<open>length\<close>; its one accessor,
  \<^verbatim>\<open>__proto__\<close>, is treated where it is read and written. And the members of
  \<^verbatim>\<open>ArrayBuffer.prototype\<close>, which come first in the chain once a buffer is the prototype:
  its methods, and its accessors, which have no setter and whose getter throws a
  \<^verbatim>\<open>TypeError\<close> when the receiver is not a buffer.
\<close>

definition object_prototype :: "(jstring \<times> nat) list" where
  "object_prototype =
     [(str ''constructor'', 1), (str ''__defineGetter__'', 2), (str ''__defineSetter__'', 2),
      (str ''hasOwnProperty'', 1), (str ''__lookupGetter__'', 1), (str ''__lookupSetter__'', 1),
      (str ''isPrototypeOf'', 1), (str ''propertyIsEnumerable'', 1), (str ''toString'', 0),
      (str ''valueOf'', 0), (str ''toLocaleString'', 0)]"

definition arraybuffer_prototype :: "(jstring \<times> nat) list" where
  "arraybuffer_prototype =
     [(str ''constructor'', 1), (str ''slice'', 2), (str ''resize'', 1), (str ''transfer'', 0),
      (str ''transferToFixedLength'', 0)]"

definition arraybuffer_accessors :: "jstring list" where
  "arraybuffer_accessors =
     [str ''byteLength'', str ''maxByteLength'', str ''resizable'', str ''detached'']"

text \<open>
  The read \<^verbatim>\<open>window.mergedFiles[k]\<close>: an own property, else what the prototype chain
  gives, else \<^verbatim>\<open>undefined\<close> (\<open>Inr None\<close>). Reading \<^verbatim>\<open>__proto__\<close> gives the prototype.
\<close>

definition store_get :: "store \<Rightarrow> jstring \<Rightarrow> js_error + js_value option" where
  "store_get s k =
     (case map_of (entries s) k of
        Some b \<Rightarrow> Inr (Some (Buffer b))
      | None \<Rightarrow>
          (case proto s of
             None \<Rightarrow>
               if k = proto_key then Inr (Some (Inherited 0))
               else Inr (map_option Inherited (map_of object_prototype k))
           | Some p \<Rightarrow>
               if k \<in> set arraybuffer_accessors then Inl TypeError
               else (case map_of arraybuffer_prototype k of
                       Some n \<Rightarrow> Inr (Some (Inherited n))
                     | None \<Rightarrow>
                         if k = proto_key then Inr (Some (Buffer p))
                         else Inr (map_option Inherited (map_of object_prototype k)))))"

text \<open>
  The assignment \<^verbatim>\<open>window.mergedFiles[k] = v\<close> of a buffer, in strict mode: an own
  property is updated; otherwise an inherited accessor without a setter throws, the
  inherited setter of \<^verbatim>\<open>__proto__\<close> makes the buffer the prototype, and any other name
  becomes a new own property.
\<close>

definition store_set :: "jstring \<Rightarrow> buffer \<Rightarrow> store \<Rightarrow> js_error + store" where
  "store_set k v s =
     (if map_of (entries s) k \<noteq> None then Inr (s\<lparr>entries := obj_set k v (entries s)\<rparr>)
      else if proto s \<noteq> None \<and> k \<in> set arraybuffer_accessors then Inl TypeError
      else if k = proto_key then Inr (s\<lparr>proto := Some v\<rparr>)
      else Inr (s\<lparr>entries := obj_set k v (entries s)\<rparr>))"

record state =
  mergedFiles :: store
  mergeStatus :: "jstring \<rightharpoonup> merge_status"

text \<open>
  \<^verbatim>\<open>getMergedFile(filename)\<close>: the read of the exact key first (every object is truthy),
  then the first own entry whose key matches.
\<close>

definition getMergedFile :: "store \<Rightarrow> jstring \<Rightarrow> js_error + js_value option" where
  "getMergedFile merged filename =
     (case store_get merged filename of
        Inl err \<Rightarrow> Inl err
      | Inr (Some v) \<Rightarrow> Inr (Some v)
      | Inr None \<Rightarrow>
          (case find (\<lambda>(key, value). urlsMatch key filename) (entries merged) of
             Some (key, value) \<Rightarrow> Inr (Some (Buffer value))
           | None \<Rightarrow> Inr None))"

text \<open>\<^verbatim>\<open>shouldInterceptFile(url)\<close>; the loop over \<^verbatim>\<open>config.files\<close> is \<open>intercept_loop\<close>.\<close>

fun intercept_loop ::
  "config \<Rightarrow> (jstring \<rightharpoonup> merge_status) \<Rightarrow> jstring \<Rightarrow> file_spec list \<Rightarrow> jstring option" where
  "intercept_loop cfg status_map urlStr [] = None"
| "intercept_loop cfg status_map urlStr (file # rest) =
     (let fileName = name file; fullPath = full_path cfg fileName
      in if (urlsMatch urlStr fileName \<or> urlsMatch urlStr fullPath) \<and>
            status_map fileName = Some Ready
         then Some fileName
         else intercept_loop cfg status_map urlStr rest)"

definition shouldInterceptFile ::
  "config \<Rightarrow> (jstring \<rightharpoonup> merge_status) \<Rightarrow> jstring \<Rightarrow> jstring option" where
  "shouldInterceptFile cfg status_map url =
     (let urlStr = normalizeUrl url
      in if str_includes urlStr (str ''.part'') then None
         else intercept_loop cfg status_map urlStr (files cfg))"

section \<open>Merge orchestrator\<close>

text \<open>
  \<^verbatim>\<open>encodeURIComponent\<close>: every code unit outside the unreserved set is replaced by the
  escaped octets of the UTF-8 encoding of its code point; a lone surrogate throws.
\<close>

definition unreserved :: "nat \<Rightarrow> bool" where
  "unreserved c \<longleftrightarrow>
     (65 \<le> c \<and> c \<le> 90) \<or> (97 \<le> c \<and> c \<le> 122) \<or> (48 \<le> c \<and> c \<le> 57) \<or>
     c \<in> set (str ''-_.!~*'' @ [39] @ str ''()'')"

definition utf8_encode :: "nat \<Rightarrow> nat list" where
  "utf8_encode cp =
     (if cp < 128 then [cp]
      else if cp < 2048 then [192 + cp div 64, 128 + cp mod 64]
      else if cp < 65536 then [224 + cp div 4096, 128 + (cp div 64) mod 64, 128 + cp mod 64]
      else [240 + cp div 262144, 128 + (cp div 4096) mod 64, 128 + (cp div 64) mod 64,
            128 + cp mod 64])"

definition hexdigit :: "nat \<Rightarrow> nat" where
  "hexdigit d = (if d < 10 then 48 + d else 55 + d)"

definition escape_octets :: "nat list \<Rightarrow> jstring" where
  "escape_octets bs = concat (map (\<lambda>b. [37, hexdigit (b div 16), hexdigit (b mod 16)]) bs)"

fun encodeURIComponent :: "jstring \<Rightarrow> jstring option" where
  "encodeURIComponent [] = Some []"
| "encodeURIComponent (c # cs) =
     (if unreserved c then map_option ((#) c) (encodeURIComponent cs)
      else if c < 55296 \<or> 57343 < c
        then map_option ((@) (escape_octets (utf8_encode c))) (encodeURIComponent cs)
      else if 56320 \<le> c then None
      else
        (case cs of
           [] \<Rightarrow> None
         | d # ds \<Rightarrow>
             (if 56320 \<le> d \<and> d \<le> 57343
              then map_option
                     ((@) (escape_octets (utf8_encode ((c - 55296) * 1024 + (d - 56320) + 65536))))
                     (encodeURIComponent ds)
              else None)))"

text \<open>The \<^verbatim>\<open>.catch\<close> callback of one file's merge.\<close>

definition on_rejected :: "file_spec \<Rightarrow> state \<Rightarrow> state" where
  "on_rejected file st = st\<lparr>mergeStatus := status_set (name file) Failed (mergeStatus st)\<rparr>"

text \<open>
  The \<^verbatim>\<open>.then\<close> callback of one file's merge assigns the buffer under five keys, one
  statement after the other: \<open>then_keys\<close> are these keys in the order of the statements,
  \<open>None\<close> where computing the key throws (\<^verbatim>\<open>encodeURIComponent\<close>). \<open>assign_all\<close> runs the
  statements: it stops at the first one that throws, in the key or in the assignment, and
  says whether all of them ran. When one throws, what was assigned before stays and the
  \<^verbatim>\<open>.catch\<close> callback runs; otherwise the status becomes \<^verbatim>\<open>'ready'\<close>.
\<close>

definition then_keys :: "config \<Rightarrow> file_spec \<Rightarrow> jstring option list" where
  "then_keys cfg file =
     (let fullPath = full_path cfg (name file);
          basename = split_pop 47 (name file)
      in [Some (name file), Some fullPath, Some basename,
          encodeURIComponent (name file), encodeURIComponent fullPath])"

fun assign_all :: "jstring option list \<Rightarrow> buffer \<Rightarrow> store \<Rightarrow> store \<times> bool" where
  "assign_all [] buffer m = (m, True)"
| "assign_all (None # keys) buffer m = (m, False)"
| "assign_all (Some k # keys) buffer m =
     (case store_set k buffer m of
        Inl err \<Rightarrow> (m, False)
      | Inr m' \<Rightarrow> assign_all keys buffer m')"

text \<open>The keys whose statements can run: those before the first key that throws.\<close>

fun reached :: "jstring option list \<Rightarrow> jstring list" where
  "reached [] = []"
| "reached (None # keys) = []"
| "reached (Some k # keys) = k # reached keys"

definition on_fulfilled :: "config \<Rightarrow> file_spec \<Rightarrow> buffer \<Rightarrow> state \<Rightarrow> state" where
  "on_fulfilled cfg file buffer st =
     (case assign_all (then_keys cfg file) buffer (mergedFiles st) of
        (m, True) \<Rightarrow>
          st\<lparr>mergedFiles := m, mergeStatus := status_set (name file) Ready (mergeStatus st)\<rparr>
      | (m, False) \<Rightarrow> on_rejected file (st\<lparr>mergedFiles := m\<rparr>))"

text \<open>
  The merge of the file at position \<open>i\<close> of \<^verbatim>\<open>config.files\<close> settles: its \<^verbatim>\<open>.then\<close> or its
  \<^verbatim>\<open>.catch\<close> callback runs. \<open>sched i\<close> gives the orders in which that file's part fetches
  and body reads settle.
\<close>

definition settle ::
  "'a fetch_fn \<Rightarrow> (nat \<Rightarrow> nat list \<times> nat list) \<Rightarrow> config \<Rightarrow> state \<Rightarrow> nat \<Rightarrow> state" where
  "settle originalFetch sched cfg st i =
     (if i < length (files cfg) then
        (let file = files cfg ! i; fullPath = full_path cfg (name file)
         in case mergeSplitFiles originalFetch (fst (sched i)) (snd (sched i)) fullPath
                   (parts file) of
              Inr buffer \<Rightarrow> on_fulfilled cfg file buffer st
            | Inl err \<Rightarrow> on_rejected file st)
      else st)"

text \<open>The synchronous part of \<^verbatim>\<open>autoMergeFiles\<close>: every file is marked \<^verbatim>\<open>'merging'\<close>.\<close>

definition start_merges :: "config \<Rightarrow> state \<Rightarrow> state" where
  "start_merges cfg st =
     foldl (\<lambda>st file. st\<lparr>mergeStatus := status_set (name file) Merging (mergeStatus st)\<rparr>)
       st (files cfg)"

text \<open>
  \<^verbatim>\<open>autoMergeFiles\<close> after the merges at the positions \<open>order\<close> have settled, in that
  order. With \<open>order\<close> a permutation of the positions this is the final state; with a
  prefix of one it is a state that an interceptor can observe in between. Logging and the
  final \<^verbatim>\<open>filesMerged\<close> event change neither the store nor the status map and are left
  out.
\<close>

definition autoMergeFiles ::
  "'a fetch_fn \<Rightarrow> (nat \<Rightarrow> nat list \<times> nat list) \<Rightarrow> nat list \<Rightarrow> config \<Rightarrow> state \<Rightarrow> state" where
  "autoMergeFiles originalFetch sched order cfg st =
     (if files cfg = [] then st
      else foldl (settle originalFetch sched cfg) (start_merges cfg st) order)"

text \<open>
  Names for what one file's merge does, used to state the properties below: the keys
  under which the \<^verbatim>\<open>.then\<close> callback assigns (up to a throwing \<^verbatim>\<open>encodeURIComponent\<close>),
  the result of the merge of the file at position \<open>i\<close>, the keys under which its
  callbacks can assign (none when the merge fails), and the status that they leave when no
  assignment throws.
\<close>

definition variants :: "config \<Rightarrow> file_spec \<Rightarrow> jstring list" where
  "variants cfg file =
     [name file, full_path cfg (name file), split_pop 47 (name file)] @
     (case encodeURIComponent (name file) of
        None \<Rightarrow> []
      | Some encName \<Rightarrow>
          encName #
          (case encodeURIComponent (full_path cfg (name file)) of
             None \<Rightarrow> []
           | Some encPath \<Rightarrow> [encPath]))"

definition merge_of ::
  "'a fetch_fn \<Rightarrow> (nat \<Rightarrow> nat list \<times> nat list) \<Rightarrow> config \<Rightarrow> nat \<Rightarrow> js_error + buffer" where
  "merge_of originalFetch sched cfg i =
     mergeSplitFiles originalFetch (fst (sched i)) (snd (sched i))
       (full_path cfg (name (files cfg ! i))) (parts (files cfg ! i))"

definition written ::
  "'a fetch_fn \<Rightarrow> (nat \<Rightarrow> nat list \<times> nat list) \<Rightarrow> config \<Rightarrow> nat \<Rightarrow> jstring list" where
  "written originalFetch sched cfg i =
     (case merge_of originalFetch sched cfg i of
        Inl err \<Rightarrow> []
      | Inr buffer \<Rightarrow> variants cfg (files cfg ! i))"

definition outcome ::
  "'a fetch_fn \<Rightarrow> (nat \<Rightarrow> nat list \<times> nat list) \<Rightarrow> config \<Rightarrow> nat \<Rightarrow> merge_status" where
  "outcome originalFetch sched cfg i =
     (case merge_of originalFetch sched cfg i of
        Inl err \<Rightarrow> Failed
      | Inr buffer \<Rightarrow>
          if encodeURIComponent (name (files cfg ! i)) \<noteq> None \<and>
             encodeURIComponent (full_path cfg (name (files cfg ! i))) \<noteq> None
          then Ready else Failed)"

text \<open>
  The buffer that assignments have left to be read under a key: the own property, or for
  \<^verbatim>\<open>__proto__\<close> the prototype.
\<close>

definition slot :: "store \<Rightarrow> jstring \<Rightarrow> buffer option" where
  "slot s k =
     (case map_of (entries s) k of
        Some b \<Rightarrow> Some b
      | None \<Rightarrow> if k = proto_key then proto s else None)"

text \<open>
  A name is published when the buffer stored under it is the result of the merge of a
  configured file that assigns under that name; the invariant of the orchestrator is that
  every name marked \<^verbatim>\<open>'ready'\<close> is published.
\<close>

definition published ::
  "'a fetch_fn \<Rightarrow> (nat \<Rightarrow> nat list \<times> nat list) \<Rightarrow> config \<Rightarrow> store \<Rightarrow> jstring \<Rightarrow> bool" where
  "published originalFetch sched cfg s n \<longleftrightarrow>
     (\<exists>j b. j < length (files cfg) \<and> merge_of originalFetch sched cfg j = Inr b \<and>
            n \<in> set (variants cfg (files cfg ! j)) \<and> slot s n = Some b)"

definition ready_published ::
  "'a fetch_fn \<Rightarrow> (nat \<Rightarrow> nat list \<times> nat list) \<Rightarrow> config \<Rightarrow> state \<Rightarrow> bool" where
  "ready_published originalFetch sched cfg st \<longleftrightarrow>
     mergeStatus st proto_key = None \<and>
     (\<forall>n. mergeStatus st n = Some Ready \<longrightarrow> published originalFetch sched cfg (mergedFiles st) n)"

text \<open>How the part fetch at \<open>url\<close> can fail: the fetch rejects, the response is not
  \<^verbatim>\<open>ok\<close>, or its body cannot be read.\<close>

definition part_fails :: "'a fetch_fn \<Rightarrow> jstring \<Rightarrow> bool" where
  "part_fails originalFetch url =
     (case originalFetch url [] of
        Inl err \<Rightarrow> True
      | Inr r \<Rightarrow> \<not> ok r \<or> isl (arrayBuffer r))"

section \<open>Request interceptor, fetch style\<close>

record synth_response =
  resp_status :: nat
  resp_statusText :: jstring
  content_type :: jstring
  content_length :: jstring
  resp_body :: buffer

datatype fetch_outcome = Resolved synth_response | Rejected js_error

text \<open>
  The callback of \<^verbatim>\<open>setInterval(..., 50)\<close>. At its \<open>k\<close>-th run \<^verbatim>\<open>Date.now()\<close> is \<open>now k\<close>
  and \<^verbatim>\<open>window.mergedFiles\<close> is \<open>store_at k\<close>. The result \<open>None\<close> is a promise that never
  settles: the interval runs for ever, or a run has cleared the interval and then thrown
  before it resolved (\<^verbatim>\<open>buffer.byteLength.toString()\<close> on an inherited object, which has
  no \<^verbatim>\<open>byteLength\<close>). A run in which the lookup itself throws leaves the interval running.
\<close>

partial_function (option) checkData ::
  "(nat \<Rightarrow> int) \<Rightarrow> (nat \<Rightarrow> store) \<Rightarrow> int \<Rightarrow> jstring \<Rightarrow> nat \<Rightarrow> fetch_outcome option" where
  "checkData now store_at startTime filename k =
     (case getMergedFile (store_at k) filename of
        Inl err \<Rightarrow> checkData now store_at startTime filename (Suc k)
      | Inr (Some (Buffer buffer)) \<Rightarrow>
          Some (Resolved
            \<lparr>resp_status = 200, resp_statusText = str ''OK'',
             content_type = (if endsWith filename (str ''.wasm'') then str ''application/wasm''
                             else str ''application/octet-stream''),
             content_length = decimal (length buffer),
             resp_body = buffer\<rparr>)
      | Inr (Some (Inherited n)) \<Rightarrow> None
      | Inr None \<Rightarrow>
          if now k - startTime > 30000
          then Some (Rejected (Error (str ''Timeout waiting for merged file: '' @ filename)))
          else checkData now store_at startTime filename (Suc k))"

datatype 'r fetch_result = Delegated 'r | Intercepted "fetch_outcome option"

text \<open>
  The replacement \<^verbatim>\<open>window.fetch(url, ...args)\<close>, called when the status map is
  \<open>status_map\<close>. An empty file name is falsy and is not intercepted.
\<close>

definition fetch ::
  "(jstring \<Rightarrow> 'a list \<Rightarrow> 'r) \<Rightarrow> config \<Rightarrow> (jstring \<rightharpoonup> merge_status) \<Rightarrow>
   (nat \<Rightarrow> int) \<Rightarrow> (nat \<Rightarrow> store) \<Rightarrow> int \<Rightarrow> jstring \<Rightarrow> 'a list \<Rightarrow> 'r fetch_result" where
  "fetch originalFetch cfg status_map now store_at startTime url args =
     (case shouldInterceptFile cfg status_map url of
        Some filename \<Rightarrow>
          if filename \<noteq> [] then Intercepted (checkData now store_at startTime filename 0)
          else Delegated (originalFetch url args)
      | None \<Rightarrow> Delegated (originalFetch url args))"

section \<open>Request interceptor, callback style\<close>

text \<open>
  The request object that the replacement constructor returns: the native object \<open>native\<close>
  made by the original constructor, the variable \<^verbatim>\<open>requestUrl\<close> of the closure, and the
  own getters that an intercepted \<^verbatim>\<open>send\<close> has defined on the object, if any. A caller who
  reads \<^verbatim>\<open>response\<close>, \<^verbatim>\<open>responseType\<close>, \<^verbatim>\<open>status\<close>, \<^verbatim>\<open>statusText\<close> or
  \<^verbatim>\<open>readyState\<close> gets what the own getters return when they are defined (\<open>Inl\<close>), and what
  the native object has otherwise (\<open>Inr\<close>).
\<close>

record xhr_props =
  xhr_response :: buffer
  xhr_responseType :: jstring
  xhr_status :: nat
  xhr_statusText :: jstring
  xhr_readyState :: nat

record 'n xhr =
  requestUrl :: jstring
  own_getters :: "xhr_props option"
  native :: 'n

definition new_XMLHttpRequest :: "'n \<Rightarrow> 'n xhr" where
  "new_XMLHttpRequest n = \<lparr>requestUrl = [], own_getters = None, native = n\<rparr>"

definition observe :: "'n xhr \<Rightarrow> xhr_props + 'n" where
  "observe x = (case own_getters x of Some p \<Rightarrow> Inl p | None \<Rightarrow> Inr (native x))"

text \<open>
  The event object passed to a handler; \<open>loaded\<close> and \<open>total\<close> are \<^verbatim>\<open>buffer.byteLength\<close>,
  which is \<^verbatim>\<open>undefined\<close> (\<open>None\<close>) on an inherited object.
\<close>

record event =
  ev_type :: jstring
  lengthComputable :: bool
  loaded :: "nat option"
  total :: "nat option"
  has_target :: bool

text \<open>
  The value of a handler property (\<^verbatim>\<open>onprogress\<close>, \<^verbatim>\<open>onload\<close>,
  \<^verbatim>\<open>onreadystatechange\<close>) at the moment the callback reads it: not set (\<open>None\<close>), or set
  to something whose call returns, or whose call throws.
\<close>

datatype handler = Returns | Throws js_error

record handlers =
  onprogress :: "handler option"
  onload :: "handler option"
  onreadystatechange :: "handler option"

text \<open>
  What an intercepted \<^verbatim>\<open>send\<close> does, in order of time. \<open>SetTimeout d\<close>: a callback is
  scheduled with delay \<open>d\<close> ms, and the steps that follow are run by that callback.
  \<open>DefineProperties p\<close>: the five getters are defined on the request object.
  \<open>Call h ev\<close>: the handler property \<open>h\<close> is called, with the event \<open>ev\<close> or with no
  argument. \<open>Raise e\<close>: the running code throws \<open>e\<close> and nothing catches it.
\<close>

datatype step = SetTimeout nat | DefineProperties xhr_props | Call jstring "event option"
  | Raise js_error

definition byteLength :: "js_value \<Rightarrow> nat option" where
  "byteLength v = (case v of Buffer b \<Rightarrow> Some (length b) | Inherited n \<Rightarrow> None)"

text \<open>
  \<^verbatim>\<open>new Uint8Array(buffer).buffer\<close>: a view of a buffer has that buffer; any other object
  is copied as an array-like, which gives as many zero bytes as its \<^verbatim>\<open>length\<close> says.
\<close>

definition uint8_buffer :: "js_value \<Rightarrow> buffer" where
  "uint8_buffer v = (case v of Buffer b \<Rightarrow> b | Inherited n \<Rightarrow> replicate n 0)"

text \<open>
  The three \<^verbatim>\<open>if (xhr.on...) xhr.on...(...)\<close> statements of the \<^verbatim>\<open>setTimeout(..., 10)\<close>
  callback, one after the other: a handler that is not set is skipped, and a handler that
  throws ends the callback, so the statements after it do not run.
\<close>

fun call_handlers :: "(jstring \<times> event option \<times> handler option) list \<Rightarrow> step list" where
  "call_handlers [] = []"
| "call_handlers ((h, ev, None) # rest) = call_handlers rest"
| "call_handlers ((h, ev, Some Returns) # rest) = Call h ev # call_handlers rest"
| "call_handlers ((h, ev, Some (Throws e)) # rest) = [Call h ev, Raise e]"

definition fire_events :: "handlers \<Rightarrow> js_value \<Rightarrow> step list" where
  "fire_events hs buffer =
     call_handlers
       [(str ''onprogress'',
         Some \<lparr>ev_type = str ''progress'', lengthComputable = True,
               loaded = byteLength buffer, total = byteLength buffer, has_target = False\<rparr>,
         onprogress hs),
        (str ''onload'',
         Some \<lparr>ev_type = str ''load'', lengthComputable = True,
               loaded = byteLength buffer, total = byteLength buffer, has_target = True\<rparr>,
         onload hs),
        (str ''onreadystatechange'', None, onreadystatechange hs)]"

text \<open>
  \<^verbatim>\<open>waitForMerge\<close>: its \<open>k\<close>-th run sees the store \<open>store_at k\<close>, and \<open>trace\<close> is what has
  happened before it. There is no bound on the number of runs: \<open>None\<close> is the request that
  is rescheduled for ever. A lookup that throws ends the run without a new
  \<^verbatim>\<open>setTimeout\<close>. The request object is the one that the replacement constructor made; it
  is extensible and the five properties are configurable, so
  \<^verbatim>\<open>Object.defineProperty\<close> does not throw.
\<close>

partial_function (option) waitForMerge ::
  "(nat \<Rightarrow> store) \<Rightarrow> handlers \<Rightarrow> jstring \<Rightarrow> 'n xhr \<Rightarrow> nat \<Rightarrow> step list \<Rightarrow>
   ('n xhr \<times> step list) option" where
  "waitForMerge store_at hs filename x k trace =
     (case getMergedFile (store_at k) filename of
        Inl err \<Rightarrow> Some (x, trace @ [Raise err])
      | Inr (Some buffer) \<Rightarrow>
          (let p = \<lparr>xhr_response = uint8_buffer buffer, xhr_responseType = str ''arraybuffer'',
                    xhr_status = 200, xhr_statusText = str ''OK'', xhr_readyState = 4\<rparr>
           in Some (x\<lparr>own_getters := Some p\<rparr>,
                    trace @ [DefineProperties p, SetTimeout 10] @ fire_events hs buffer))
      | Inr None \<Rightarrow>
          waitForMerge store_at hs filename x (Suc k) (trace @ [SetTimeout 50]))"

datatype 'n send_result = SendDelegated "'n xhr" | SendIntercepted "('n xhr \<times> step list) option"

text \<open>
  \<^verbatim>\<open>xhr.open(method, url, ...args)\<close> records the URL and calls the original \<^verbatim>\<open>open\<close> on
  the object; \<^verbatim>\<open>xhr.send(...args)\<close> decides on the recorded URL, and calls the original
  \<^verbatim>\<open>send\<close> on the object when it does not intercept. Neither removes the own getters.
\<close>

definition xhr_open ::
  "('n \<Rightarrow> jstring \<Rightarrow> jstring \<Rightarrow> 'a list \<Rightarrow> 'n) \<Rightarrow> 'n xhr \<Rightarrow> jstring \<Rightarrow> jstring \<Rightarrow> 'a list \<Rightarrow> 'n xhr" where
  "xhr_open originalOpen x method url args =
     x\<lparr>requestUrl := url, native := originalOpen (native x) method url args\<rparr>"

definition xhr_send ::
  "('n \<Rightarrow> 'a list \<Rightarrow> 'n) \<Rightarrow> config \<Rightarrow> (jstring \<rightharpoonup> merge_status) \<Rightarrow> (nat \<Rightarrow> store) \<Rightarrow>
   handlers \<Rightarrow> 'n xhr \<Rightarrow> 'a list \<Rightarrow> 'n send_result" where
  "xhr_send originalSend cfg status_map store_at hs x args =
     (case shouldInterceptFile cfg status_map (requestUrl x) of
        Some filename \<Rightarrow>
          if filename \<noteq> [] then SendIntercepted (waitForMerge store_at hs filename x 0 [])
          else SendDelegated (x\<lparr>native := originalSend (native x) args\<rparr>)
      | None \<Rightarrow> SendDelegated (x\<lparr>native := originalSend (native x) args\<rparr>))"

section \<open>Example environments\<close>

text \<open>
  One file \<^verbatim>\<open>model.bin\<close> in three parts under \<^verbatim>\<open>/assets/\<close>; every other URL answers 404.
  The store starts as the empty object \<^verbatim>\<open>{}\<close>.
\<close>

definition model_cfg :: config where
  "model_cfg = \<lparr>files = [\<lparr>name = str ''model.bin'', parts = 3\<rparr>], basePath = str ''/assets/'',
                debug = False, autoDetect = False\<rparr>"

definition model_body :: "nat \<Rightarrow> buffer" where
  "model_body i = (if i = 1 then [1, 2] else if i = 2 then [3] else [4, 5])"

definition model_fetch :: "unit fetch_fn" where
  "model_fetch url args =
     (if url = part_path (str ''/assets/model.bin'') 1
        then Inr \<lparr>ok = True, status = 200, arrayBuffer = Inr (model_body 1)\<rparr>
      else if url = part_path (str ''/assets/model.bin'') 2
        then Inr \<lparr>ok = True, status = 200, arrayBuffer = Inr (model_body 2)\<rparr>
      else if url = part_path (str ''/assets/model.bin'') 3
        then Inr \<lparr>ok = True, status = 200, arrayBuffer = Inr (model_body 3)\<rparr>
      else Inr \<lparr>ok = False, status = 404, arrayBuffer = Inr []\<rparr>)"

definition plain_object :: "(jstring \<times> buffer) list \<Rightarrow> store" where
  "plain_object es = \<lparr>entries = es, proto = None\<rparr>"

definition init_state :: state where
  "init_state = \<lparr>mergedFiles = plain_object [], mergeStatus = Map.empty\<rparr>"

definition all_handlers :: handlers where
  "all_handlers = \<lparr>onprogress = Some Returns, onload = Some Returns,
                   onreadystatechange = Some Returns\<rparr>"

definition model_sched :: "nat \<Rightarrow> nat list \<times> nat list" where
  "model_sched i = ([2, 0, 1], [1, 2, 0])"

definition model_final :: state where
  "model_final =
     autoMergeFiles model_fetch model_sched [0] model_cfg
       \<lparr>mergedFiles = plain_object [], mergeStatus = Map.empty\<rparr>"

text \<open>
  Further environments: every part settles in the order of its position
  (\<open>index_sched\<close>); two files of which the first loses its second part (\<open>iso\<close>); two
  entries with the same name (\<open>dup\<close>); a part fetch that rejects (\<open>rej\<close>); a file
  whose name is a lone surrogate (\<open>sur\<close>); two files with the same basename (\<open>col\<close>);
  a base path that ends in a query (\<open>qry\<close>); a file named \<^verbatim>\<open>__proto__\<close> (\<open>pro\<close>); a
  file whose basename is \<^verbatim>\<open>__proto__\<close> followed by a file named \<^verbatim>\<open>byteLength\<close> (\<open>acc\<close>).
\<close>

definition index_sched :: "nat \<Rightarrow> nat list \<times> nat list" where
  "index_sched i = ([], [])"

definition iso_cfg :: config where
  "iso_cfg = \<lparr>files = [\<lparr>name = str ''x.bin'', parts = 3\<rparr>, \<lparr>name = str ''y.bin'', parts = 1\<rparr>],
              basePath = str ''/a/'', debug = False, autoDetect = False\<rparr>"

definition iso_fetch :: "unit fetch_fn" where
  "iso_fetch url args =
     (if url = part_path (str ''/a/x.bin'') 1
        then Inr \<lparr>ok = True, status = 200, arrayBuffer = Inr [1]\<rparr>
      else if url = part_path (str ''/a/x.bin'') 3
        then Inr \<lparr>ok = True, status = 200, arrayBuffer = Inr [3]\<rparr>
      else if url = part_path (str ''/a/y.bin'') 1
        then Inr \<lparr>ok = True, status = 200, arrayBuffer = Inr [7, 8]\<rparr>
      else Inr \<lparr>ok = False, status = 404, arrayBuffer = Inr []\<rparr>)"

definition iso_final :: state where
  "iso_final = autoMergeFiles iso_fetch index_sched [1, 0] iso_cfg init_state"

definition dup_cfg :: config where
  "dup_cfg = \<lparr>files = [\<lparr>name = str ''a'', parts = 1\<rparr>, \<lparr>name = str ''a'', parts = 2\<rparr>],
              basePath = [], debug = False, autoDetect = False\<rparr>"

definition dup_fetch :: "unit fetch_fn" where
  "dup_fetch url args =
     (if url = part_path (str ''a'') 1
        then Inr \<lparr>ok = True, status = 200, arrayBuffer = Inr [1]\<rparr>
      else Inr \<lparr>ok = False, status = 404, arrayBuffer = Inr []\<rparr>)"

definition rej_fetch :: "unit fetch_fn" where
  "rej_fetch url args =
     (if url = part_path (str ''a'') 1
        then Inr \<lparr>ok = False, status = 404, arrayBuffer = Inr []\<rparr>
      else Inl (HostError (str ''Failed to fetch'')))"

definition col_cfg :: config where
  "col_cfg = \<lparr>files = [\<lparr>name = str ''a/d.bin'', parts = 1\<rparr>, \<lparr>name = str ''b/d.bin'', parts = 1\<rparr>],
              basePath = [], debug = False, autoDetect = False\<rparr>"

definition col_fetch :: "unit fetch_fn" where
  "col_fetch url args =
     (if url = part_path (str ''a/d.bin'') 1
        then Inr \<lparr>ok = True, status = 200, arrayBuffer = Inr [1]\<rparr>
      else if url = part_path (str ''b/d.bin'') 1
        then Inr \<lparr>ok = True, status = 200, arrayBuffer = Inr [2]\<rparr>
      else Inr \<lparr>ok = False, status = 404, arrayBuffer = Inr []\<rparr>)"

definition sur_cfg :: config where
  "sur_cfg = \<lparr>files = [\<lparr>name = [55296], parts = 1\<rparr>], basePath = [], debug = False,
              autoDetect = False\<rparr>"

definition sur_fetch :: "unit fetch_fn" where
  "sur_fetch url args = Inr \<lparr>ok = True, status = 200, arrayBuffer = Inr [1]\<rparr>"

definition col_final :: state where
  "col_final = autoMergeFiles col_fetch index_sched [0, 1] col_cfg init_state"

definition qry_cfg :: config where
  "qry_cfg = \<lparr>files = [\<lparr>name = str ''model.bin'', parts = 3\<rparr>], basePath = str ''/get?file='',
              debug = False, autoDetect = False\<rparr>"

definition qry_fetch :: "unit fetch_fn" where
  "qry_fetch url args =
     (if url = part_path (str ''/get?file=model.bin'') 1
        then Inr \<lparr>ok = True, status = 200, arrayBuffer = Inr (model_body 1)\<rparr>
      else if url = part_path (str ''/get?file=model.bin'') 2
        then Inr \<lparr>ok = True, status = 200, arrayBuffer = Inr (model_body 2)\<rparr>
      else if url = part_path (str ''/get?file=model.bin'') 3
        then Inr \<lparr>ok = True, status = 200, arrayBuffer = Inr (model_body 3)\<rparr>
      else Inr \<lparr>ok = False, status = 404, arrayBuffer = Inr []\<rparr>)"

definition qry_final :: state where
  "qry_final = autoMergeFiles qry_fetch model_sched [0] qry_cfg init_state"

definition pro_cfg :: config where
  "pro_cfg = \<lparr>files = [\<lparr>name = str ''__proto__'', parts = 1\<rparr>], basePath = [], debug = False,
              autoDetect = False\<rparr>"

definition acc_cfg :: config where
  "acc_cfg = \<lparr>files = [\<lparr>name = str ''p/__proto__'', parts = 1\<rparr>,
                       \<lparr>name = str ''byteLength'', parts = 1\<rparr>],
              basePath = [], debug = False, autoDetect = False\<rparr>"

text \<open>
  A native request object reduced to the five properties that a caller reads: a new object
  is \<open>unsent\<close>, the original \<^verbatim>\<open>open\<close> leaves it \<open>opened\<close>, and the original \<^verbatim>\<open>send\<close> leaves
  the answer of the server, here always \<open>not_found\<close>. \<open>model_request\<close> is a new request
  object opened on \<^verbatim>\<open>/assets/model.bin\<close>, and \<open>model_synth\<close> is what the getters
  synthesized for \<^verbatim>\<open>model.bin\<close> return.
\<close>

definition unsent :: xhr_props where
  "unsent = \<lparr>xhr_response = [], xhr_responseType = [], xhr_status = 0, xhr_statusText = [],
             xhr_readyState = 0\<rparr>"

definition opened :: xhr_props where
  "opened = \<lparr>xhr_response = [], xhr_responseType = [], xhr_status = 0, xhr_statusText = [],
             xhr_readyState = 1\<rparr>"

definition not_found :: xhr_props where
  "not_found = \<lparr>xhr_response = [], xhr_responseType = [], xhr_status = 404,
                xhr_statusText = str ''Not Found'', xhr_readyState = 4\<rparr>"

definition plain_open :: "xhr_props \<Rightarrow> jstring \<Rightarrow> jstring \<Rightarrow> unit list \<Rightarrow> xhr_props" where
  "plain_open n method url args = opened"

definition plain_send :: "xhr_props \<Rightarrow> unit list \<Rightarrow> xhr_props" where
  "plain_send n args = not_found"

definition model_request :: "xhr_props xhr" where
  "model_request =
     xhr_open plain_open (new_XMLHttpRequest unsent) (str ''GET'') (str ''/assets/model.bin'') []"

definition model_synth :: xhr_props where
  "model_synth = \<lparr>xhr_response = [1, 2, 3, 4, 5], xhr_responseType = str ''arraybuffer'',
                  xhr_status = 200, xhr_statusText = str ''OK'', xhr_readyState = 4\<rparr>"
section \<open>Properties of the URL matcher\<close>

lemma normalizeUrl_xa: "normalizeUrl (str ''xa'') = str ''xa''"
  by (simp add: normalizeUrl_def split_first_def str_def)

lemma normalizeUrl_a: "normalizeUrl (str ''a'') = str ''a''"
  by (simp add: normalizeUrl_def split_first_def str_def)

lemma normalizeUrl_ya: "normalizeUrl (str ''ya'') = str ''ya''"
  by (simp add: normalizeUrl_def split_first_def str_def)

text \<open>
  C7: \<open>urlsMatch\<close> is symmetric, and it is not transitive: \<^verbatim>\<open>"xa"\<close> matches \<^verbatim>\<open>"a"\<close>
  and \<^verbatim>\<open>"a"\<close> matches \<^verbatim>\<open>"ya"\<close> (one is a suffix of the other), but \<^verbatim>\<open>"xa"\<close> does not
  match \<^verbatim>\<open>"ya"\<close>.
\<close>

theorem urlsMatch_symmetric_not_transitive:
  "(\<forall>a b. urlsMatch a b = urlsMatch b a) \<and>
   (\<exists>a b c. urlsMatch a b \<and> urlsMatch b c \<and> \<not> urlsMatch a c)"
proof
  show "\<forall>a b. urlsMatch a b = urlsMatch b a"
    by (auto simp: urlsMatch_def Let_def)
next
  have 1: "urlsMatch (str ''xa'') (str ''a'')"
    by (simp add: urlsMatch_def normalizeUrl_xa normalizeUrl_a) (simp add: str_def endsWith_def)
  have 2: "urlsMatch (str ''a'') (str ''ya'')"
    by (simp add: urlsMatch_def normalizeUrl_ya normalizeUrl_a) (simp add: str_def endsWith_def)
  have 3: "\<not> urlsMatch (str ''xa'') (str ''ya'')"
    by (simp add: urlsMatch_def normalizeUrl_xa normalizeUrl_ya)
       (simp add: str_def endsWith_def split_pop_def)
  from 1 2 3 show "\<exists>a b c. urlsMatch a b \<and> urlsMatch b c \<and> \<not> urlsMatch a c"
    by blast
qed

section \<open>Properties of the merge engine\<close>

lemma rejections_none:
  assumes "\<forall>r\<in>set rs. \<exists>v. r = Inr v"
  shows "rejections order rs = []"
proof -
  have a: "\<exists>v. rs ! i = Inr v" if "i < length rs" for i
    using assms that nth_mem by blast
  have "(if i < length rs then (case rs ! i of Inl e \<Rightarrow> Some e | Inr v \<Rightarrow> None) else None)
             = None" for i
    using a [of i] by (auto split: sum.splits)
  then show ?thesis
    by (induction order) (simp_all add: rejections_def map_filter_simps)
qed

lemma fulfilled_map_Inr: "fulfilled (map Inr vs) = vs"
  by (induction vs) (simp_all add: fulfilled_def map_filter_simps)

lemma promise_all_fulfilled: "promise_all order (map Inr vs) = Inr vs"
  by (simp add: promise_all_def rejections_none fulfilled_map_Inr)

lemma check_responses_all_ok:
  "\<forall>r\<in>set rs. ok r \<Longrightarrow> check_responses ps rs = None"
  by (induction ps rs rule: check_responses.induct) simp_all

lemma foldl_sum_length:
  "foldl (\<lambda>sum buf. sum + length buf) n (bs :: buffer list) = n + length (concat bs)"
  by (induction bs arbitrary: n) simp_all

lemma copy_buffers_concat:
  "offset + length (concat bs) \<le> length arr \<Longrightarrow>
   copy_buffers bs offset arr =
     Inr (take offset arr @ concat bs @ drop (offset + length (concat bs)) arr)"
proof (induction bs arbitrary: offset arr)
  case Nil
  then show ?case by simp
next
  case (Cons b bs)
  let ?arr' = "take offset arr @ b @ drop (offset + length b) arr"
  from Cons.prems have fit: "offset + length b \<le> length arr" by simp
  then have step: "typed_array_set arr b offset = Inr ?arr'"
    by (simp add: typed_array_set_def)
  from Cons.prems fit have len: "offset + length b + length (concat bs) \<le> length ?arr'"
    by simp
  have tk: "take (offset + length b) ?arr' = take offset arr @ b"
    using fit by simp
  have dr: "drop (offset + length b + length (concat bs)) ?arr'
            = drop (offset + length b + length (concat bs)) arr"
    using fit by (simp add: min_def add.commute add.left_commute)
  show ?case
    using Cons.IH [OF len] step tk dr by (simp add: add.assoc)
qed

lemma mergeSplitFiles_bodies:
  assumes "\<forall>i<numParts. \<exists>r. originalFetch (part_path filePath (Suc i)) [] = Inr r \<and> ok r \<and>
             arrayBuffer r = Inr (body (Suc i))"
  shows "mergeSplitFiles originalFetch fetch_order read_order filePath numParts
         = Inr (concat (map body [1..<Suc numParts]))"
proof -
  define idx where "idx = [1..<Suc numParts]"
  define rs where "rs = map (\<lambda>i. projr (originalFetch (part_path filePath i) [])) idx"
  have mem: "\<And>i. i \<in> set idx \<Longrightarrow>
      \<exists>r. originalFetch (part_path filePath i) [] = Inr r \<and> ok r \<and> arrayBuffer r = Inr (body i)"
  proof -
    fix i assume "i \<in> set idx"
    then have "1 \<le> i \<and> i < Suc numParts"
      unfolding idx_def by (simp only: set_upt atLeastLessThan_iff)
    then obtain j where "i = Suc j" "j < numParts" by (cases i) auto
    with assms show "\<exists>r. originalFetch (part_path filePath i) [] = Inr r \<and> ok r \<and>
        arrayBuffer r = Inr (body i)" by simp
  qed
  have fetches: "map (\<lambda>part. originalFetch part []) (map (part_path filePath) idx) = map Inr rs"
    unfolding rs_def map_map comp_def
  proof (rule map_cong [OF refl])
    fix i assume "i \<in> set idx"
    from mem [OF this] show "originalFetch (part_path filePath i) []
        = Inr (projr (originalFetch (part_path filePath i) []))" by auto
  qed
  have oks: "\<forall>r\<in>set rs. ok r"
  proof
    fix r assume "r \<in> set rs"
    then obtain i where i: "i \<in> set idx"
      and r: "r = projr (originalFetch (part_path filePath i) [])"
      unfolding rs_def by auto
    from mem [OF i] r show "ok r" by auto
  qed
  have reads: "map arrayBuffer rs = map Inr (map body idx)"
    unfolding rs_def map_map comp_def
  proof (rule map_cong [OF refl])
    fix i assume "i \<in> set idx"
    from mem [OF this] show "arrayBuffer (projr (originalFetch (part_path filePath i) []))
        = Inr (body i)" by auto
  qed
  have copy: "copy_buffers bs 0 (replicate (length (concat bs)) 0) = Inr (concat bs)"
    for bs :: "buffer list"
    using copy_buffers_concat [of 0 bs "replicate (length (concat bs)) 0"] by simp
  show ?thesis
    unfolding mergeSplitFiles_def Let_def idx_def [symmetric] fetches
      promise_all_fulfilled sum.case check_responses_all_ok [OF oks] option.case reads
      foldl_sum_length
    by (simp only: add_0 copy)
qed

text \<open>
  C1: when every one of the \<open>numParts\<close> part fetches resolves with an \<^verbatim>\<open>ok\<close> response whose
  body reads as \<open>body i\<close>, the merge returns exactly \<open>body 1 @ \<dots> @ body numParts\<close>, for
  every order in which the fetches and the body reads settle, and the length of the result
  is the sum of the lengths of the parts.
\<close>

theorem mergeSplitFiles_concat:
  assumes "\<forall>i<numParts. \<exists>r. originalFetch (part_path filePath (Suc i)) [] = Inr r \<and> ok r \<and>
             arrayBuffer r = Inr (body (Suc i))"
  shows "\<exists>merged.
           mergeSplitFiles originalFetch fetch_order read_order filePath numParts = Inr merged \<and>
           merged = concat (map body [1..<Suc numParts]) \<and>
           length merged = (\<Sum>i\<leftarrow>[1..<Suc numParts]. length (body i))"
  using mergeSplitFiles_bodies [of numParts originalFetch filePath body, OF assms]
  by (simp add: length_concat comp_def)

lemma decimal_digit: "n < 10 \<Longrightarrow> decimal n = [48 + n]"
  by (simp add: decimal.simps)

lemma model_fetch_parts:
  "\<forall>i<3. \<exists>r. model_fetch (part_path (str ''/assets/model.bin'') (Suc i)) [] = Inr r \<and> ok r \<and>
      arrayBuffer r = Inr (model_body (Suc i))"
proof (intro allI impI)
  fix i :: nat assume "i < 3"
  then consider "i = 0" | "i = 1" | "i = 2" by linarith
  then show "\<exists>r. model_fetch (part_path (str ''/assets/model.bin'') (Suc i)) [] = Inr r \<and> ok r \<and>
      arrayBuffer r = Inr (model_body (Suc i))"
    by cases (simp_all add: model_fetch_def part_path_def decimal_digit eval_nat_numeral)
qed

theorem mergeSplitFiles_concat_witness:
  "mergeSplitFiles model_fetch [2, 0, 1] [1, 2, 0] (str ''/assets/model.bin'') 3
   = Inr [1, 2, 3, 4, 5]"
  using mergeSplitFiles_concat [of 3 model_fetch "str ''/assets/model.bin''" model_body
      "[2, 0, 1]" "[1, 2, 0]", OF model_fetch_parts]
  by (simp add: model_body_def upt_rec)

section \<open>Part paths are not intercepted\<close>

lemma str_includes_iff: "str_includes s t \<longleftrightarrow> (\<exists>a b. s = a @ t @ b)"
proof (induction s)
  case Nil
  then show ?case by simp
next
  case (Cons c cs)
  show ?case
  proof
    assume "str_includes (c # cs) t"
    then consider "take (length t) (c # cs) = t" | "str_includes cs t" by auto
    then show "\<exists>a b. c # cs = a @ t @ b"
    proof cases
      case 1
      then have "c # cs = [] @ t @ drop (length t) (c # cs)"
        by (metis append_Nil append_take_drop_id)
      then show ?thesis by blast
    next
      case 2
      with Cons.IH obtain a b where "cs = a @ t @ b" by blast
      then have "c # cs = (c # a) @ t @ b" by simp
      then show ?thesis by blast
    qed
  next
    assume "\<exists>a b. c # cs = a @ t @ b"
    then obtain a b where ab: "c # cs = a @ t @ b" by blast
    show "str_includes (c # cs) t"
    proof (cases a)
      case Nil
      with ab have "take (length t) (c # cs) = t" by simp
      then show ?thesis by simp
    next
      case (Cons x a')
      with ab have "cs = a' @ t @ b" by simp
      with Cons.IH have "str_includes cs t" by blast
      then show ?thesis by simp
    qed
  qed
qed

lemma take_escape_keeps_part:
  assumes "take_escape (p @ str ''.part'' @ r) = Some (b, rest)"
  shows "\<exists>p'. rest = p' @ str ''.part'' @ r \<and> length p' < length p"
proof -
  have dot: "hexval 46 = None" by (simp add: hexval_def)
  consider "p = []" | x where "p = [x]" | x y where "p = [x, y]"
    | x y z p' where "p = x # y # z # p'"
    by (cases p rule: take_escape.cases) auto
  then show ?thesis
  proof cases
    case 1
    with assms show ?thesis by (simp add: str_def)
  next
    case 2
    with assms dot show ?thesis by (simp add: str_def split: if_splits)
  next
    case 3
    with assms dot show ?thesis by (simp add: str_def split: if_splits option.splits)
  next
    case 4
    with assms show ?thesis by (auto split: if_splits option.splits)
  qed
qed

lemma take_escapes_keeps_part:
  "take_escapes n (p @ str ''.part'' @ r) = Some (bs, rest) \<Longrightarrow>
   \<exists>p'. rest = p' @ str ''.part'' @ r \<and> length p' \<le> length p"
proof (induction n arbitrary: p bs rest)
  case 0
  then show ?case by auto
next
  case (Suc n)
  from Suc.prems obtain b r1 bs' where
    e: "take_escape (p @ str ''.part'' @ r) = Some (b, r1)"
    and es: "take_escapes n r1 = Some (bs', rest)"
    by (auto split: option.splits)
  from take_escape_keeps_part [OF e] obtain p1 where
    p1: "r1 = p1 @ str ''.part'' @ r" "length p1 < length p" by blast
  from Suc.IH [of p1 bs' rest] es p1 obtain p' where
    "rest = p' @ str ''.part'' @ r" "length p' \<le> length p1" by auto
  with p1 show ?case by (intro exI [of _ p']) simp
qed

lemma decode_part_literal:
  "decodeURIComponent (str ''.part'' @ r) = map_option ((@) (str ''.part'')) (decodeURIComponent r)"
  by (cases "decodeURIComponent r") (simp_all add: str_def)

lemma decodeURIComponent_keeps_part:
  "decodeURIComponent (p @ str ''.part'' @ r) = Some d \<Longrightarrow> \<exists>a b. d = a @ str ''.part'' @ b"
proof (induction "length p" arbitrary: p d rule: less_induct)
  case less
  show ?case
  proof (cases p)
    case Nil
    with less.prems obtain d' where "d = str ''.part'' @ d'"
      by (auto simp: decode_part_literal)
    then have "d = [] @ str ''.part'' @ d'" by simp
    then show ?thesis by blast
  next
    case (Cons c p')
    show ?thesis
    proof (cases "c = 37")
      case False
      with Cons less.prems obtain d' where
        d': "decodeURIComponent (p' @ str ''.part'' @ r) = Some d'" and d: "d = c # d'"
        by auto
      from less.hyps [of p' d'] Cons d' obtain a b where "d' = a @ str ''.part'' @ b" by auto
      with d have "d = (c # a) @ str ''.part'' @ b" by simp
      then show ?thesis by blast
    next
      case True
      with Cons less.prems obtain b r1 where
        e: "take_escape (p @ str ''.part'' @ r) = Some (b, r1)"
        by (auto split: option.splits)
      from take_escape_keeps_part [OF e] obtain p1 where
        p1: "r1 = p1 @ str ''.part'' @ r" "length p1 < length p" by blast
      show ?thesis
      proof (cases "leading_ones b = 0")
        case l0: True
        with True Cons less.prems e obtain d' where
          d': "decodeURIComponent r1 = Some d'" and d: "d = b # d'"
          by auto
        from less.hyps [of p1 d'] p1 d' obtain a b' where "d' = a @ str ''.part'' @ b'" by auto
        with d have "d = (b # a) @ str ''.part'' @ b'" by simp
        then show ?thesis by blast
      next
        case l1: False
        with True Cons less.prems e obtain bs r2 v d' where
          es: "take_escapes (leading_ones b - 1) r1 = Some (bs, r2)"
          and d': "decodeURIComponent r2 = Some d'" and d: "d = utf16 v @ d'"
          by (auto split: option.splits if_splits)
        from take_escapes_keeps_part [of _ p1 r bs r2] es p1 obtain p2 where
          p2: "r2 = p2 @ str ''.part'' @ r" "length p2 \<le> length p1" by auto
        from less.hyps [of p2 d'] p1 p2 d' obtain a b' where "d' = a @ str ''.part'' @ b'"
          by auto
        with d have "d = (utf16 v @ a) @ str ''.part'' @ b'" by simp
        then show ?thesis by blast
      qed
    qed
  qed
qed

lemma split_first_part:
  "63 \<notin> set p \<Longrightarrow>
   split_first 63 (p @ str ''.part'' @ r) = p @ str ''.part'' @ split_first 63 r"
  by (induction p) (simp_all add: split_first_def str_def)

lemma normalizeUrl_keeps_part:
  assumes "63 \<notin> set p"
  shows "str_includes (normalizeUrl (p @ str ''.part'' @ r)) (str ''.part'')"
proof (cases "decodeURIComponent (split_first 63 (p @ str ''.part'' @ r))")
  case None
  then have "normalizeUrl (p @ str ''.part'' @ r) = p @ str ''.part'' @ r"
    by (simp add: normalizeUrl_def)
  then show ?thesis unfolding str_includes_iff by metis
next
  case (Some d)
  then have n: "normalizeUrl (p @ str ''.part'' @ r) = d" by (simp add: normalizeUrl_def)
  from Some have "decodeURIComponent (p @ str ''.part'' @ split_first 63 r) = Some d"
    by (simp add: split_first_part [OF assms])
  from decodeURIComponent_keeps_part [OF this] n show ?thesis
    unfolding str_includes_iff by simp
qed

section \<open>Properties of the interception decision\<close>

lemma intercept_loop_None:
  "\<forall>file\<in>set fs. (urlsMatch urlStr (name file) \<or> urlsMatch urlStr (full_path cfg (name file)))
      \<longrightarrow> status_map (name file) \<noteq> Some Ready \<Longrightarrow>
   intercept_loop cfg status_map urlStr fs = None"
  by (induction fs) (auto simp: Let_def)

lemma intercept_loop_Some:
  "intercept_loop cfg status_map urlStr fs = Some filename \<Longrightarrow>
   status_map filename = Some Ready \<and>
   (\<exists>file\<in>set fs. name file = filename \<and>
      (urlsMatch urlStr filename \<or> urlsMatch urlStr (full_path cfg filename)))"
  by (induction fs) (auto simp: Let_def split: if_splits)

lemma shouldInterceptFile_Ready:
  "shouldInterceptFile cfg status_map url = Some filename \<Longrightarrow> status_map filename = Some Ready"
  by (auto simp: shouldInterceptFile_def Let_def split: if_splits dest: intercept_loop_Some)

section \<open>Properties of the buffer store\<close>

lemma map_of_insert_index:
  "map_of m k = None \<Longrightarrow> map_of (insert_index n k v m) = (map_of m)(k \<mapsto> v)"
  by (induction m) (auto simp: fun_eq_iff split: option.splits if_splits)

lemma map_of_replace:
  "map_of (map (\<lambda>(k', v'). if k' = k then (k', v) else (k', v')) m) x
   = (if x = k then map_option (\<lambda>_. v) (map_of m k) else map_of m x)"
  by (induction m) auto

lemma map_of_obj_set: "map_of (obj_set k v m) = (map_of m)(k \<mapsto> v)"
proof (cases "map_of m k")
  case None
  then show ?thesis
    by (auto simp: obj_set_def map_of_insert_index fun_eq_iff map_add_def
        split: option.splits)
next
  case (Some a)
  then show ?thesis
    by (auto simp: obj_set_def map_of_replace fun_eq_iff)
qed

lemma store_set_entries:
  "store_set k v s = Inr s' \<Longrightarrow>
   map_of (entries s') =
     (if k = proto_key \<and> map_of (entries s) k = None then map_of (entries s)
      else (map_of (entries s))(k \<mapsto> v))"
  by (auto simp: store_set_def map_of_obj_set split: if_splits)

lemma store_set_proto:
  "store_set k v s = Inr s' \<Longrightarrow>
   proto s' = (if k = proto_key \<and> map_of (entries s) k = None then Some v else proto s)"
  by (auto simp: store_set_def split: if_splits)

lemma store_set_slot: "store_set k v s = Inr s' \<Longrightarrow> slot s' = (slot s)(k \<mapsto> v)"
  by (auto simp: slot_def fun_eq_iff store_set_entries store_set_proto split: option.splits)

lemma store_set_plain: "proto s = None \<Longrightarrow> \<exists>s'. store_set k v s = Inr s'"
  by (simp add: store_set_def)

lemma proto_key_not_member:
  "proto_key \<notin> set arraybuffer_accessors" "map_of arraybuffer_prototype proto_key = None"
  by (simp_all add: proto_key_def arraybuffer_accessors_def arraybuffer_prototype_def str_def)

lemma getMergedFile_exact:
  "map_of (entries merged) filename = Some buffer \<Longrightarrow>
   getMergedFile merged filename = Inr (Some (Buffer buffer))"
  by (simp add: getMergedFile_def store_get_def)

lemma getMergedFile_slot:
  "slot merged filename = Some buffer \<Longrightarrow>
   getMergedFile merged filename = Inr (Some (Buffer buffer))"
  by (auto simp: slot_def getMergedFile_def store_get_def proto_key_not_member
      split: option.splits if_splits)

lemma variants_reached: "variants cfg file = reached (then_keys cfg file)"
  by (cases "encodeURIComponent (name file)";
      cases "encodeURIComponent (full_path cfg (name file))")
     (simp_all add: variants_def then_keys_def Let_def)

lemma assign_all_slot:
  "slot (fst (assign_all ks b m)) k = slot m k \<or>
   (k \<in> set (reached ks) \<and> slot (fst (assign_all ks b m)) k = Some b)"
proof (induction ks b m rule: assign_all.induct)
  case (1 buffer m)
  then show ?case by simp
next
  case (2 keys buffer m)
  then show ?case by simp
next
  case (3 k' keys buffer m)
  show ?case
  proof (cases "store_set k' buffer m")
    case (Inl err)
    then show ?thesis by simp
  next
    case (Inr m')
    from store_set_slot [OF Inr] have s: "slot m' = (slot m)(k' \<mapsto> buffer)" .
    from "3.IH" [OF Inr] Inr s show ?thesis by (cases "k = k'") auto
  qed
qed

lemma assign_all_done:
  "assign_all ks b m = (m', True) \<Longrightarrow>
   None \<notin> set ks \<and> (\<forall>k\<in>set (reached ks). slot m' k = Some b)"
proof (induction ks b m rule: assign_all.induct)
  case (1 buffer m)
  then show ?case by simp
next
  case (2 keys buffer m)
  then show ?case by simp
next
  case (3 k' keys buffer m)
  from "3.prems" obtain m1 where 1: "store_set k' buffer m = Inr m1"
    and 2: "assign_all keys buffer m1 = (m', True)"
    by (auto split: sum.splits)
  from "3.IH" [OF 1 2] have ih: "None \<notin> set keys"
    "\<forall>k\<in>set (reached keys). slot m' k = Some buffer" by simp_all
  from store_set_slot [OF 1] have "slot m1 k' = Some buffer" by simp
  with assign_all_slot [of keys buffer m1 k'] 2 have "slot m' k' = Some buffer" by auto
  with ih show ?case by auto
qed

lemma assign_all_plain:
  "proto m = None \<Longrightarrow> \<forall>k. k \<in> set (reached ks) \<longrightarrow> k \<noteq> proto_key \<Longrightarrow>
   proto (fst (assign_all ks b m)) = None \<and>
   snd (assign_all ks b m) = (None \<notin> set ks) \<and>
   map_of (entries (fst (assign_all ks b m))) =
     (\<lambda>k. if k \<in> set (reached ks) then Some b
          else map_of (entries m) k)"
proof (induction ks b m rule: assign_all.induct)
  case (1 buffer m)
  then show ?case by simp
next
  case (2 keys buffer m)
  then show ?case by simp
next
  case (3 k' keys buffer m)
  from store_set_plain [OF "3.prems"(1)] obtain m1 where 1: "store_set k' buffer m = Inr m1"
    by blast
  from "3.prems"(2) have ne: "k' \<noteq> proto_key" by simp
  from store_set_proto [OF 1] ne "3.prems"(1) have p: "proto m1 = None" by simp
  from store_set_entries [OF 1] ne
  have e: "map_of (entries m1) = (map_of (entries m))(k' \<mapsto> buffer)" by simp
  from "3.prems"(2) have rest: "\<forall>k. k \<in> set (reached keys) \<longrightarrow>
      k \<noteq> proto_key" by simp
  from "3.IH" [OF 1 p rest] 1 e show ?case by (auto simp: fun_eq_iff)
qed

section \<open>Properties of the orchestrator\<close>

lemma status_set_proto_key [simp]: "status_set k v m proto_key = m proto_key"
  by (simp add: status_set_def)

lemma status_set_other: "n \<noteq> k \<Longrightarrow> status_set k v m n = m n"
  by (simp add: status_set_def)

lemma status_set_Ready:
  "status_set k v m n = Some Ready \<Longrightarrow> m n = Some Ready \<or> (n = k \<and> k \<noteq> proto_key \<and> v = Ready)"
  by (auto simp: status_set_def split: if_splits)

lemma on_rejected_store [simp]: "mergedFiles (on_rejected file st) = mergedFiles st"
  by (simp add: on_rejected_def)

lemma on_rejected_status [simp]:
  "mergeStatus (on_rejected file st) = status_set (name file) Failed (mergeStatus st)"
  by (simp add: on_rejected_def)

lemma on_fulfilled_store:
  "mergedFiles (on_fulfilled cfg file buffer st)
   = fst (assign_all (then_keys cfg file) buffer (mergedFiles st))"
  by (cases "assign_all (then_keys cfg file) buffer (mergedFiles st)")
     (auto simp: on_fulfilled_def split: bool.splits)

lemma on_fulfilled_status:
  "mergeStatus (on_fulfilled cfg file buffer st)
   = status_set (name file)
       (if snd (assign_all (then_keys cfg file) buffer (mergedFiles st)) then Ready else Failed)
       (mergeStatus st)"
  by (cases "assign_all (then_keys cfg file) buffer (mergedFiles st)")
     (auto simp: on_fulfilled_def split: bool.splits)

lemma settle_out_of_range:
  "\<not> i < length (files cfg) \<Longrightarrow> settle originalFetch sched cfg st i = st"
  by (simp add: settle_def)

lemma settle_failed:
  "i < length (files cfg) \<Longrightarrow> merge_of originalFetch sched cfg i = Inl err \<Longrightarrow>
   settle originalFetch sched cfg st i = on_rejected (files cfg ! i) st"
  by (simp add: settle_def merge_of_def Let_def)

lemma settle_fulfilled:
  "i < length (files cfg) \<Longrightarrow> merge_of originalFetch sched cfg i = Inr buffer \<Longrightarrow>
   settle originalFetch sched cfg st i = on_fulfilled cfg (files cfg ! i) buffer st"
  by (simp add: settle_def merge_of_def Let_def)

lemma settle_failed_store:
  "merge_of originalFetch sched cfg i = Inl err \<Longrightarrow>
   mergedFiles (settle originalFetch sched cfg st i) = mergedFiles st"
  by (simp add: settle_def merge_of_def Let_def)

text \<open>
  A callback changes what is stored under a key only by storing the result of its merge,
  and only under one of its own keys.
\<close>

lemma settle_slot:
  "slot (mergedFiles (settle originalFetch sched cfg st i)) k = slot (mergedFiles st) k \<or>
   (i < length (files cfg) \<and>
    (\<exists>b. merge_of originalFetch sched cfg i = Inr b \<and>
         k \<in> set (variants cfg (files cfg ! i)) \<and>
         slot (mergedFiles (settle originalFetch sched cfg st i)) k = Some b))"
proof (cases "i < length (files cfg)")
  case False
  then show ?thesis by (simp add: settle_out_of_range)
next
  case True
  show ?thesis
  proof (cases "merge_of originalFetch sched cfg i")
    case (Inl err)
    then show ?thesis by (simp add: settle_failed_store)
  next
    case (Inr b)
    from assign_all_slot [of "then_keys cfg (files cfg ! i)" b "mergedFiles st" k]
    show ?thesis
      using True Inr
      by (auto simp: settle_fulfilled [OF True Inr] on_fulfilled_store variants_reached)
  qed
qed

lemma settle_status_other:
  "i < length (files cfg) \<longrightarrow> n \<noteq> name (files cfg ! i) \<Longrightarrow>
   mergeStatus (settle originalFetch sched cfg st i) n = mergeStatus st n"
proof (cases "i < length (files cfg)")
  case False
  then show ?thesis by (simp add: settle_out_of_range)
next
  case True
  assume "i < length (files cfg) \<longrightarrow> n \<noteq> name (files cfg ! i)"
  with True have ne: "n \<noteq> name (files cfg ! i)" by simp
  show ?thesis
  proof (cases "merge_of originalFetch sched cfg i")
    case (Inl err)
    with True ne show ?thesis by (simp add: settle_failed status_set_other)
  next
    case (Inr b)
    with True ne show ?thesis
      by (simp add: settle_fulfilled on_fulfilled_status status_set_other)
  qed
qed

lemma settle_proto_status:
  "mergeStatus (settle originalFetch sched cfg st i) proto_key = mergeStatus st proto_key"
proof (cases "i < length (files cfg)")
  case False
  then show ?thesis by (simp add: settle_out_of_range)
next
  case True
  then show ?thesis
    by (cases "merge_of originalFetch sched cfg i")
       (simp_all add: settle_failed settle_fulfilled on_fulfilled_status)
qed

text \<open>
  A callback that marks a name \<^verbatim>\<open>'ready'\<close> is the \<^verbatim>\<open>.then\<close> callback of the file of that
  name; all its statements have run, and the result of the merge is stored under each of
  its keys.
\<close>

lemma settle_Ready:
  assumes "mergeStatus (settle originalFetch sched cfg st i) n = Some Ready"
  shows "mergeStatus st n = Some Ready \<or>
         (i < length (files cfg) \<and> n = name (files cfg ! i) \<and> n \<noteq> proto_key \<and>
          (\<exists>b. merge_of originalFetch sched cfg i = Inr b \<and>
               None \<notin> set (then_keys cfg (files cfg ! i)) \<and>
               (\<forall>k\<in>set (variants cfg (files cfg ! i)).
                   slot (mergedFiles (settle originalFetch sched cfg st i)) k = Some b)))"
proof (cases "i < length (files cfg)")
  case False
  with assms show ?thesis by (simp add: settle_out_of_range)
next
  case True
  show ?thesis
  proof (cases "merge_of originalFetch sched cfg i")
    case (Inl err)
    with assms True show ?thesis
      by (auto simp: settle_failed dest: status_set_Ready)
  next
    case (Inr b)
    let ?r = "assign_all (then_keys cfg (files cfg ! i)) b (mergedFiles st)"
    from assms have "status_set (name (files cfg ! i)) (if snd ?r then Ready else Failed)
        (mergeStatus st) n = Some Ready"
      by (simp add: settle_fulfilled [OF True Inr] on_fulfilled_status)
    from status_set_Ready [OF this]
    consider "mergeStatus st n = Some Ready"
      | "n = name (files cfg ! i)" "n \<noteq> proto_key" "snd ?r"
      by (auto split: if_splits)
    then show ?thesis
    proof cases
      case 1
      then show ?thesis by simp
    next
      case 2
      then have "?r = (fst ?r, True)" by (cases ?r) simp
      from assign_all_done [OF this]
      have d: "None \<notin> set (then_keys cfg (files cfg ! i))"
        "\<forall>k\<in>set (variants cfg (files cfg ! i)). slot (fst ?r) k = Some b"
        by (simp_all add: variants_reached)
      with 2 True Inr d(1) show ?thesis
        by (simp add: settle_fulfilled [OF True Inr] on_fulfilled_store)
    qed
  qed
qed

lemma mark_merging_store:
  "mergedFiles (foldl (\<lambda>st file.
      st\<lparr>mergeStatus := status_set (name file) Merging (mergeStatus st)\<rparr>) st fs) = mergedFiles st"
  by (induction fs arbitrary: st) simp_all

lemma mark_merging_status:
  "mergeStatus (foldl (\<lambda>st file.
      st\<lparr>mergeStatus := status_set (name file) Merging (mergeStatus st)\<rparr>) st fs) n
   = (if n \<in> name ` set fs \<and> n \<noteq> proto_key then Some Merging else mergeStatus st n)"
  by (induction fs arbitrary: st) (auto simp: status_set_def)

lemma start_merges_store [simp]: "mergedFiles (start_merges cfg st) = mergedFiles st"
  unfolding start_merges_def by (rule mark_merging_store)

lemma start_merges_status:
  "mergeStatus (start_merges cfg st) n
   = (if n \<in> name ` set (files cfg) \<and> n \<noteq> proto_key then Some Merging else mergeStatus st n)"
  unfolding start_merges_def by (rule mark_merging_status)

text \<open>Every name marked \<^verbatim>\<open>'ready'\<close> is published, in every state that is reached.\<close>

lemma settle_published:
  assumes "published originalFetch sched cfg (mergedFiles st) n"
  shows "published originalFetch sched cfg (mergedFiles (settle originalFetch sched cfg st i)) n"
proof -
  from assms obtain j b where j: "j < length (files cfg)"
    "merge_of originalFetch sched cfg j = Inr b" "n \<in> set (variants cfg (files cfg ! j))"
    "slot (mergedFiles st) n = Some b"
    unfolding published_def by blast
  from settle_slot [of originalFetch sched cfg st i n]
  consider "slot (mergedFiles (settle originalFetch sched cfg st i)) n = slot (mergedFiles st) n"
    | b' where "i < length (files cfg)" "merge_of originalFetch sched cfg i = Inr b'"
        "n \<in> set (variants cfg (files cfg ! i))"
        "slot (mergedFiles (settle originalFetch sched cfg st i)) n = Some b'"
    by blast
  then show ?thesis
  proof cases
    case 1
    with j show ?thesis unfolding published_def by auto
  next
    case 2
    then show ?thesis unfolding published_def by blast
  qed
qed

lemma settles_published:
  "published originalFetch sched cfg (mergedFiles st) n \<Longrightarrow>
   published originalFetch sched cfg
     (mergedFiles (foldl (settle originalFetch sched cfg) st order)) n"
  by (induction order arbitrary: st) (simp_all add: settle_published)

lemma settle_ready_published:
  assumes "ready_published originalFetch sched cfg st"
  shows "ready_published originalFetch sched cfg (settle originalFetch sched cfg st i)"
  unfolding ready_published_def
proof (intro conjI allI impI)
  from assms show "mergeStatus (settle originalFetch sched cfg st i) proto_key = None"
    by (simp add: settle_proto_status ready_published_def)
next
  fix n assume r: "mergeStatus (settle originalFetch sched cfg st i) n = Some Ready"
  from settle_Ready [OF r]
  consider "mergeStatus st n = Some Ready"
    | b where "i < length (files cfg)" "n = name (files cfg ! i)"
        "merge_of originalFetch sched cfg i = Inr b"
        "\<forall>k\<in>set (variants cfg (files cfg ! i)).
            slot (mergedFiles (settle originalFetch sched cfg st i)) k = Some b"
    by blast
  then show "published originalFetch sched cfg
      (mergedFiles (settle originalFetch sched cfg st i)) n"
  proof cases
    case 1
    with assms have "published originalFetch sched cfg (mergedFiles st) n"
      by (simp add: ready_published_def)
    then show ?thesis by (rule settle_published)
  next
    case 2
    have "n \<in> set (variants cfg (files cfg ! i))" using 2(2) by (simp add: variants_def)
    with 2 show ?thesis unfolding published_def by blast
  qed
qed

lemma settles_ready_published:
  "ready_published originalFetch sched cfg st \<Longrightarrow>
   ready_published originalFetch sched cfg (foldl (settle originalFetch sched cfg) st order)"
  by (induction order arbitrary: st) (simp_all add: settle_ready_published)

lemma autoMergeFiles_ready_published:
  "ready_published originalFetch sched cfg
     (autoMergeFiles originalFetch sched order cfg \<lparr>mergedFiles = m0, mergeStatus = Map.empty\<rparr>)"
proof -
  have 0: "ready_published originalFetch sched cfg \<lparr>mergedFiles = m0, mergeStatus = Map.empty\<rparr>"
    by (simp add: ready_published_def)
  have "ready_published originalFetch sched cfg
      (start_merges cfg \<lparr>mergedFiles = m0, mergeStatus = Map.empty\<rparr>)"
    by (simp add: ready_published_def start_merges_status)
  from settles_ready_published [OF this, of order] 0 show ?thesis
    by (simp add: autoMergeFiles_def)
qed

lemma autoMergeFiles_published_later:
  assumes "published originalFetch sched cfg
      (mergedFiles (autoMergeFiles originalFetch sched order cfg st)) n"
  shows "published originalFetch sched cfg
      (mergedFiles (autoMergeFiles originalFetch sched (order @ later) cfg st)) n"
proof (cases "files cfg = []")
  case True
  with assms show ?thesis by (simp add: autoMergeFiles_def)
next
  case False
  with assms have "published originalFetch sched cfg (mergedFiles
      (foldl (settle originalFetch sched cfg) (start_merges cfg st) order)) n"
    by (simp add: autoMergeFiles_def)
  from settles_published [OF this, of later] False show ?thesis
    by (simp add: autoMergeFiles_def)
qed

text \<open>
  What a name marked \<^verbatim>\<open>'ready'\<close> gives to a reader of the store: the name is an own key,
  and the lookup returns the buffer stored under it, which is the result of the merge of a
  configured file that assigns under that name.
\<close>

lemma published_lookup:
  assumes "published originalFetch sched cfg s n" and "n \<noteq> proto_key"
  shows "\<exists>j buffer. j < length (files cfg) \<and> merge_of originalFetch sched cfg j = Inr buffer \<and>
           n \<in> set (variants cfg (files cfg ! j)) \<and>
           map_of (entries s) n = Some buffer \<and>
           getMergedFile s n = Inr (Some (Buffer buffer))"
proof -
  from assms(1) obtain j b where j: "j < length (files cfg)"
    "merge_of originalFetch sched cfg j = Inr b" "n \<in> set (variants cfg (files cfg ! j))"
    "slot s n = Some b"
    unfolding published_def by blast
  from j(4) assms(2) have "map_of (entries s) n = Some b"
    by (auto simp: slot_def split: option.splits)
  with j getMergedFile_exact [OF this] show ?thesis by blast
qed

text \<open>
  A run in which the prototype of the store stays \<^verbatim>\<open>Object.prototype\<close>: no assignment
  throws, and every callback assigns all its keys as own properties.
\<close>

lemma settle_plain_all:
  assumes "i < length (files cfg)" and "proto (mergedFiles st) = None"
    and "proto_key \<notin> set (variants cfg (files cfg ! i))"
  shows "proto (mergedFiles (settle originalFetch sched cfg st i)) = None \<and>
         mergeStatus (settle originalFetch sched cfg st i)
           = (mergeStatus st)(name (files cfg ! i) \<mapsto> outcome originalFetch sched cfg i) \<and>
         map_of (entries (mergedFiles (settle originalFetch sched cfg st i)))
           = (\<lambda>k. if k \<in> set (written originalFetch sched cfg i)
                  then Some (projr (merge_of originalFetch sched cfg i))
                  else map_of (entries (mergedFiles st)) k)"
proof -
  have ne: "name (files cfg ! i) \<noteq> proto_key"
    using assms(3) by (auto simp: variants_def)
  have keys: "\<forall>k. k \<in> set (reached (then_keys cfg (files cfg ! i))) \<longrightarrow>
      k \<noteq> proto_key"
    using assms(3) by (auto simp: variants_reached)
  have none: "(None \<notin> set (then_keys cfg (files cfg ! i))) \<longleftrightarrow>
      (encodeURIComponent (name (files cfg ! i)) \<noteq> None \<and>
       encodeURIComponent (full_path cfg (name (files cfg ! i))) \<noteq> None)"
    by (cases "encodeURIComponent (name (files cfg ! i))";
        cases "encodeURIComponent (full_path cfg (name (files cfg ! i)))")
       (simp_all add: then_keys_def Let_def)
  show ?thesis
  proof (cases "merge_of originalFetch sched cfg i")
    case (Inl err)
    with assms(2) ne show ?thesis
      by (simp add: settle_failed [OF assms(1) Inl] status_set_def outcome_def written_def)
  next
    case (Inr b)
    note a = assign_all_plain [OF assms(2) keys, of b]
    from a have 1: "proto (mergedFiles (settle originalFetch sched cfg st i)) = None"
      by (simp add: settle_fulfilled [OF assms(1) Inr] on_fulfilled_store)
    from a ne none
    have 2: "mergeStatus (settle originalFetch sched cfg st i)
           = (mergeStatus st)(name (files cfg ! i) \<mapsto> outcome originalFetch sched cfg i)"
      by (simp add: settle_fulfilled [OF assms(1) Inr] on_fulfilled_status status_set_def
          outcome_def Inr)
    have w: "written originalFetch sched cfg i = reached (then_keys cfg (files cfg ! i))"
      by (simp add: written_def Inr variants_reached)
    from a
    have 3: "map_of (entries (mergedFiles (settle originalFetch sched cfg st i)))
           = (\<lambda>k. if k \<in> set (written originalFetch sched cfg i)
                  then Some (projr (merge_of originalFetch sched cfg i))
                  else map_of (entries (mergedFiles st)) k)"
      by (simp add: settle_fulfilled [OF assms(1) Inr] on_fulfilled_store w Inr cong: if_cong)
    from 1 2 3 show ?thesis by (intro conjI)
  qed
qed

lemma settle_plain_proto:
  "i < length (files cfg) \<Longrightarrow> proto (mergedFiles st) = None \<Longrightarrow>
   proto_key \<notin> set (variants cfg (files cfg ! i)) \<Longrightarrow>
   proto (mergedFiles (settle originalFetch sched cfg st i)) = None"
  using settle_plain_all by blast

lemma settle_status:
  "i < length (files cfg) \<Longrightarrow> proto (mergedFiles st) = None \<Longrightarrow>
   proto_key \<notin> set (variants cfg (files cfg ! i)) \<Longrightarrow>
   mergeStatus (settle originalFetch sched cfg st i)
   = (mergeStatus st)(name (files cfg ! i) \<mapsto> outcome originalFetch sched cfg i)"
  using settle_plain_all by blast

lemma settle_store:
  "i < length (files cfg) \<Longrightarrow> proto (mergedFiles st) = None \<Longrightarrow>
   proto_key \<notin> set (variants cfg (files cfg ! i)) \<Longrightarrow>
   map_of (entries (mergedFiles (settle originalFetch sched cfg st i))) k
   = (if k \<in> set (written originalFetch sched cfg i)
      then Some (projr (merge_of originalFetch sched cfg i))
      else map_of (entries (mergedFiles st)) k)"
  using settle_plain_all [of i cfg st originalFetch sched] by simp

section \<open>The example environments evaluated\<close>

lemma plain_object_simps [simp]:
  "entries (plain_object es) = es" "proto (plain_object es) = None"
  by (simp_all add: plain_object_def)

lemma model_url_normal: "normalizeUrl (str ''/assets/model.bin'') = str ''/assets/model.bin''"
  by (simp add: normalizeUrl_def split_first_def str_def)

lemma model_name_normal: "normalizeUrl (str ''model.bin'') = str ''model.bin''"
  by (simp add: normalizeUrl_def split_first_def str_def)

lemma model_url_matches:
  "urlsMatch (normalizeUrl (str ''/assets/model.bin'')) (str ''model.bin'')"
  by (simp add: model_url_normal urlsMatch_def model_name_normal)
     (simp add: endsWith_def str_def)

lemma model_url_matches_name: "urlsMatch (str ''/assets/model.bin'') (str ''model.bin'')"
  by (simp add: urlsMatch_def model_url_normal model_name_normal)
     (simp add: endsWith_def str_def)

lemma model_failed_None:
  "shouldInterceptFile model_cfg [str ''model.bin'' \<mapsto> Failed] (str ''/assets/model.bin'') = None"
  by (simp add: shouldInterceptFile_def model_url_normal Let_def model_cfg_def)

lemma five: "decimal (Suc (Suc (Suc (Suc (Suc 0))))) = str ''5''"
  by (simp add: decimal.simps [of "Suc (Suc (Suc (Suc (Suc 0))))"] str_def)

lemma model_not_wasm: "\<not> endsWith (str ''model.bin'') (str ''.wasm'')"
  by (simp add: endsWith_def str_def)

lemma model_merge:
  "mergeSplitFiles model_fetch o1 o2 (str ''/assets/model.bin'') 3 = Inr [1, 2, 3, 4, 5]"
  using mergeSplitFiles_bodies [of 3 model_fetch "str ''/assets/model.bin''" model_body o1 o2,
      OF model_fetch_parts]
  by (simp add: model_body_def upt_rec)

lemma model_full_path: "full_path model_cfg (str ''model.bin'') = str ''/assets/model.bin''"
  by (simp add: full_path_def model_cfg_def str_def)

lemma model_encodable:
  "encodeURIComponent (str ''model.bin'') = Some (str ''model.bin'')"
  "encodeURIComponent (str ''/assets/model.bin'') = Some (str ''%2Fassets%2Fmodel.bin'')"
  by (simp_all add: str_def unreserved_def utf8_encode_def escape_octets_def hexdigit_def)

lemma model_files:
  "length (files model_cfg) = 1" "files model_cfg \<noteq> []"
  "name (files model_cfg ! 0) = str ''model.bin''" "parts (files model_cfg ! 0) = 3"
  by (simp_all add: model_cfg_def)

lemma model_merge_of: "merge_of model_fetch model_sched model_cfg 0 = Inr [1, 2, 3, 4, 5]"
  unfolding merge_of_def model_files model_full_path by (rule model_merge)

lemma model_basename: "split_pop 47 (str ''model.bin'') = str ''model.bin''"
  by (simp add: split_pop_def str_def)

lemma model_variants:
  "variants model_cfg (files model_cfg ! 0)
   = [str ''model.bin'', str ''/assets/model.bin'', str ''model.bin'', str ''model.bin'',
      str ''%2Fassets%2Fmodel.bin'']"
  by (simp add: variants_def model_files model_full_path model_encodable model_basename)

lemma model_no_proto: "proto_key \<notin> set (variants model_cfg (files model_cfg ! 0))"
  unfolding model_variants by (simp add: proto_key_def str_def)

lemma model_outcome: "outcome model_fetch model_sched model_cfg 0 = Ready"
  by (simp add: outcome_def model_merge_of model_files model_full_path model_encodable)

lemma model_written:
  "written model_fetch model_sched model_cfg 0
   = [str ''model.bin'', str ''/assets/model.bin'', str ''model.bin'', str ''model.bin'',
      str ''%2Fassets%2Fmodel.bin'']"
  by (simp add: written_def model_merge_of model_variants)

lemma model_final_settle:
  "model_final = settle model_fetch model_sched model_cfg
     (start_merges model_cfg \<lparr>mergedFiles = plain_object [], mergeStatus = Map.empty\<rparr>) 0"
  by (simp add: model_final_def autoMergeFiles_def model_files)

lemma model_final_status: "mergeStatus model_final (str ''model.bin'') = Some Ready"
proof -
  have l: "0 < length (files model_cfg)" by (simp add: model_files)
  show ?thesis
    unfolding model_final_settle
    by (simp add: settle_status [OF l _ model_no_proto] model_outcome model_files)
qed

lemma model_final_entries:
  "map_of (entries (mergedFiles model_final)) k
   = (if k \<in> set (written model_fetch model_sched model_cfg 0) then Some [1, 2, 3, 4, 5]
      else None)"
proof -
  have l: "0 < length (files model_cfg)" by (simp add: model_files)
  show ?thesis
    unfolding model_final_settle
    by (simp add: settle_store [OF l _ model_no_proto] model_merge_of)
qed

lemma model_final_lookup:
  "getMergedFile (mergedFiles model_final) (str ''model.bin'') = Inr (Some (Buffer [1, 2, 3, 4, 5]))"
  by (rule getMergedFile_exact) (simp add: model_final_entries model_written)

lemma model_final_intercept:
  "shouldInterceptFile model_cfg (mergeStatus model_final) (str ''/assets/model.bin'')
   = Some (str ''model.bin'')"
  by (simp add: shouldInterceptFile_def model_url_normal Let_def model_cfg_def
      model_url_matches_name model_final_status)
     (simp add: str_def)

lemma model_other_url:
  "shouldInterceptFile model_cfg status_map (str ''/other/file.txt'') = None"
  by (simp add: shouldInterceptFile_def normalizeUrl_def split_first_def Let_def model_cfg_def
      full_path_def urlsMatch_def endsWith_def split_pop_def str_def)

lemma model_response:
  "getMergedFile (store_at 0) (str ''model.bin'') = Inr (Some (Buffer [1, 2, 3, 4, 5])) \<Longrightarrow>
   checkData now store_at startTime (str ''model.bin'') 0
   = Some (Resolved
       \<lparr>resp_status = 200, resp_statusText = str ''OK'',
        content_type = str ''application/octet-stream'',
        content_length = str ''5'', resp_body = [1, 2, 3, 4, 5]\<rparr>)"
  by (subst checkData.simps) (simp add: model_not_wasm five)

section \<open>Part paths and the interceptors\<close>

text \<open>
  C5, as amended: a request whose URL is a part path (a path without a query mark, then
  \<^verbatim>\<open>.part\<close> and the part number, then anything, for instance a query) is never
  intercepted: \<open>shouldInterceptFile\<close> returns no file name, the \<^verbatim>\<open>fetch\<close> wrapper
  delegates, and the request object opened on that URL delegates its \<^verbatim>\<open>send\<close>.
\<close>

theorem part_paths_not_intercepted:
  assumes "63 \<notin> set path"
  shows "shouldInterceptFile cfg status_map (part_path path i @ rest) = None \<and>
         fetch originalFetch cfg status_map now store_at startTime (part_path path i @ rest) args
           = Delegated (originalFetch (part_path path i @ rest) args) \<and>
         xhr_send originalSend cfg status_map store_at hs
             (xhr_open originalOpen x method (part_path path i @ rest) open_args) send_args
           = SendDelegated
               ((xhr_open originalOpen x method (part_path path i @ rest) open_args)
                  \<lparr>native := originalSend
                     (native (xhr_open originalOpen x method (part_path path i @ rest) open_args))
                     send_args\<rparr>)"
proof -
  have "str_includes (normalizeUrl (part_path path i @ rest)) (str ''.part'')"
    using normalizeUrl_keeps_part [OF assms, of "decimal i @ rest"]
    by (simp add: part_path_def)
  then have "shouldInterceptFile cfg status_map (part_path path i @ rest) = None"
    by (simp add: shouldInterceptFile_def)
  then show ?thesis by (simp add: fetch_def xhr_send_def xhr_open_def)
qed

lemma model_part2: "part_path (str ''/assets/model.bin'') 2 @ [] = str ''/assets/model.bin.part2''"
  by (simp add: part_path_def decimal_digit str_def)

lemma model_fetch_part2:
  "model_fetch (str ''/assets/model.bin.part2'') [] =
     Inr \<lparr>ok = True, status = 200, arrayBuffer = Inr [3]\<rparr>"
  by (simp add: model_fetch_def part_path_def decimal_digit str_def model_body_def)

theorem part_paths_not_intercepted_witness:
  "63 \<notin> set (str ''/assets/model.bin'') \<and>
   shouldInterceptFile model_cfg (mergeStatus model_final) (str ''/assets/model.bin.part2'')
     = None \<and>
   fetch model_fetch model_cfg (mergeStatus model_final) (\<lambda>k. 50 * (int k + 1))
       (\<lambda>k. mergedFiles model_final) 0 (str ''/assets/model.bin.part2'') []
     = Delegated (Inr \<lparr>ok = True, status = 200, arrayBuffer = Inr [3]\<rparr>)"
proof -
  have h: "63 \<notin> set (str ''/assets/model.bin'')" by (simp add: str_def)
  note t = part_paths_not_intercepted [OF h, where cfg = model_cfg
      and status_map = "mergeStatus model_final" and i = 2 and rest = "[]"
      and originalFetch = model_fetch and now = "\<lambda>k. 50 * (int k + 1)"
      and store_at = "\<lambda>k. mergedFiles model_final" and startTime = 0
      and args = "[]", unfolded model_part2 model_fetch_part2]
  from t have a: "shouldInterceptFile model_cfg (mergeStatus model_final)
      (str ''/assets/model.bin.part2'') = None" by (rule conjunct1)
  note b = t [THEN conjunct2, THEN conjunct1]
  from h a b show ?thesis by (intro conjI)
qed

lemma qry_files:
  "length (files qry_cfg) = 1" "files qry_cfg \<noteq> []"
  "name (files qry_cfg ! 0) = str ''model.bin''" "parts (files qry_cfg ! 0) = 3"
  by (simp_all add: qry_cfg_def)

lemma qry_full_path: "full_path qry_cfg (str ''model.bin'') = str ''/get?file=model.bin''"
  by (simp add: full_path_def qry_cfg_def str_def)

lemma qry_fetch_parts:
  "\<forall>i<3. \<exists>r. qry_fetch (part_path (str ''/get?file=model.bin'') (Suc i)) [] = Inr r \<and> ok r \<and>
      arrayBuffer r = Inr (model_body (Suc i))"
proof (intro allI impI)
  fix i :: nat assume "i < 3"
  then consider "i = 0" | "i = 1" | "i = 2" by linarith
  then show "\<exists>r. qry_fetch (part_path (str ''/get?file=model.bin'') (Suc i)) [] = Inr r \<and> ok r \<and>
      arrayBuffer r = Inr (model_body (Suc i))"
    by cases (simp_all add: qry_fetch_def part_path_def decimal_digit eval_nat_numeral)
qed

lemma qry_merge_of: "merge_of qry_fetch model_sched qry_cfg 0 = Inr [1, 2, 3, 4, 5]"
  unfolding merge_of_def qry_files qry_full_path
  using mergeSplitFiles_bodies [of 3 qry_fetch "str ''/get?file=model.bin''" model_body,
      OF qry_fetch_parts]
  by (simp add: model_body_def upt_rec)

lemma qry_encodable:
  "encodeURIComponent (str ''/get?file=model.bin'') = Some (str ''%2Fget%3Ffile%3Dmodel.bin'')"
  by (simp add: str_def unreserved_def utf8_encode_def escape_octets_def hexdigit_def)

lemma qry_variants:
  "variants qry_cfg (files qry_cfg ! 0)
   = [str ''model.bin'', str ''/get?file=model.bin'', str ''model.bin'', str ''model.bin'',
      str ''%2Fget%3Ffile%3Dmodel.bin'']"
  by (simp add: variants_def qry_files qry_full_path model_encodable qry_encodable
      model_basename)

lemma qry_no_proto: "proto_key \<notin> set (variants qry_cfg (files qry_cfg ! 0))"
  unfolding qry_variants by (simp add: proto_key_def str_def)

lemma qry_outcome: "outcome qry_fetch model_sched qry_cfg 0 = Ready"
  by (simp add: outcome_def qry_merge_of qry_files qry_full_path model_encodable qry_encodable)

lemma qry_final_settle:
  "qry_final = settle qry_fetch model_sched qry_cfg (start_merges qry_cfg init_state) 0"
  by (simp add: qry_final_def autoMergeFiles_def qry_files)

lemma qry_final_status: "mergeStatus qry_final (str ''model.bin'') = Some Ready"
proof -
  have l: "0 < length (files qry_cfg)" by (simp add: qry_files)
  show ?thesis
    unfolding qry_final_settle
    by (simp add: settle_status [OF l _ qry_no_proto] qry_outcome qry_files init_state_def)
qed

lemma qry_final_lookup:
  "getMergedFile (mergedFiles qry_final) (str ''model.bin'') = Inr (Some (Buffer [1, 2, 3, 4, 5]))"
proof -
  have l: "0 < length (files qry_cfg)" by (simp add: qry_files)
  have "map_of (entries (mergedFiles qry_final)) (str ''model.bin'') = Some [1, 2, 3, 4, 5]"
    unfolding qry_final_settle
    by (simp add: settle_store [OF l _ qry_no_proto] qry_merge_of init_state_def written_def
        qry_variants)
  then show ?thesis by (rule getMergedFile_exact)
qed

lemma qry_part2:
  "part_path (full_path qry_cfg (str ''model.bin'')) 2 = str ''/get?file=model.bin.part2''"
  unfolding qry_full_path by (simp add: part_path_def decimal_digit str_def)

lemma qry_part2_normal: "normalizeUrl (str ''/get?file=model.bin.part2'') = str ''/get''"
  by (simp add: normalizeUrl_def split_first_def str_def)

lemma qry_full_normal: "normalizeUrl (str ''/get?file=model.bin'') = str ''/get''"
  by (simp add: normalizeUrl_def split_first_def str_def)

lemma qry_get_normal: "normalizeUrl (str ''/get'') = str ''/get''"
  by (simp add: normalizeUrl_def split_first_def str_def)

lemma qry_intercept:
  "shouldInterceptFile qry_cfg (mergeStatus qry_final) (str ''/get?file=model.bin.part2'')
   = Some (str ''model.bin'')"
proof -
  have np: "\<not> str_includes (str ''/get'') (str ''.part'')" by (simp add: str_def)
  have m: "urlsMatch (str ''/get'') (str ''/get?file=model.bin'')"
    by (simp add: urlsMatch_def qry_get_normal qry_full_normal)
  show ?thesis
    by (simp add: shouldInterceptFile_def qry_part2_normal Let_def np qry_cfg_def
        qry_full_path [unfolded qry_cfg_def] m qry_final_status)
qed

text \<open>
  The claim as stated fails when the base path ends in a query: with the base path
  \<^verbatim>\<open>/get?file=\<close> the part reference of \<^verbatim>\<open>model.bin\<close> is \<^verbatim>\<open>/get?file=model.bin.part2\<close>;
  normalizing cuts the URL at the query mark, so the test for \<^verbatim>\<open>.part\<close> sees \<^verbatim>\<open>/get\<close>,
  which matches the full path of the file, and once the file is ready the request for the
  part is answered with the merged buffer.
\<close>

theorem part_path_in_query_counterexample:
  "part_path (full_path qry_cfg (str ''model.bin'')) 2 = str ''/get?file=model.bin.part2'' \<and>
   shouldInterceptFile qry_cfg (mergeStatus qry_final) (str ''/get?file=model.bin.part2'')
     = Some (str ''model.bin'') \<and>
   fetch qry_fetch qry_cfg (mergeStatus qry_final) (\<lambda>k. 50 * (int k + 1))
       (\<lambda>k. mergedFiles qry_final) 0 (str ''/get?file=model.bin.part2'') []
     = Intercepted (Some (Resolved
         \<lparr>resp_status = 200, resp_statusText = str ''OK'',
          content_type = str ''application/octet-stream'',
          content_length = str ''5'', resp_body = [1, 2, 3, 4, 5]\<rparr>)) \<and>
   fetch qry_fetch qry_cfg (mergeStatus qry_final) (\<lambda>k. 50 * (int k + 1))
       (\<lambda>k. mergedFiles qry_final) 0 (str ''/get?file=model.bin.part2'') []
     \<noteq> Delegated (qry_fetch (str ''/get?file=model.bin.part2'') [])"
proof -
  have ne: "str ''model.bin'' \<noteq> []" by (simp add: str_def)
  have "fetch qry_fetch qry_cfg (mergeStatus qry_final) (\<lambda>k. 50 * (int k + 1))
       (\<lambda>k. mergedFiles qry_final) 0 (str ''/get?file=model.bin.part2'') []
     = Intercepted (Some (Resolved
         \<lparr>resp_status = 200, resp_statusText = str ''OK'',
          content_type = str ''application/octet-stream'',
          content_length = str ''5'', resp_body = [1, 2, 3, 4, 5]\<rparr>))"
    using qry_intercept ne model_response [of "\<lambda>k. mergedFiles qry_final", OF qry_final_lookup]
    by (simp add: fetch_def)
  with qry_part2 qry_intercept show ?thesis by simp
qed

section \<open>Requests that are not intercepted\<close>

text \<open>
  C3, as amended: a URL that matches only configured files whose status is not
  \<^verbatim>\<open>'ready'\<close> (for instance \<^verbatim>\<open>'failed'\<close>) is not intercepted at all: no response is
  synthesized and nothing waits or times out; the call goes to the original \<^verbatim>\<open>fetch\<close>.
\<close>

theorem failed_files_delegated:
  assumes "\<forall>file\<in>set (files cfg).
             (urlsMatch (normalizeUrl url) (name file) \<or>
              urlsMatch (normalizeUrl url) (full_path cfg (name file)))
             \<longrightarrow> status_map (name file) \<noteq> Some Ready"
  shows "shouldInterceptFile cfg status_map url = None \<and>
         fetch originalFetch cfg status_map now store_at startTime url args
           = Delegated (originalFetch url args)"
proof -
  have "shouldInterceptFile cfg status_map url = None"
    using intercept_loop_None [OF assms] by (simp add: shouldInterceptFile_def Let_def)
  then show ?thesis by (simp add: fetch_def)
qed

theorem failed_files_delegated_witness:
  "fetch model_fetch model_cfg [str ''model.bin'' \<mapsto> Failed] (\<lambda>k. 50 * (int k + 1))
       (\<lambda>k. plain_object []) 0 (str ''/assets/model.bin'') []
     = Delegated (model_fetch (str ''/assets/model.bin'') [])"
proof -
  have h: "\<forall>file\<in>set (files model_cfg).
             (urlsMatch (normalizeUrl (str ''/assets/model.bin'')) (name file) \<or>
              urlsMatch (normalizeUrl (str ''/assets/model.bin''))
                (full_path model_cfg (name file)))
             \<longrightarrow> [str ''model.bin'' \<mapsto> Failed] (name file) \<noteq> Some Ready"
    by (simp add: model_cfg_def)
  from failed_files_delegated [OF h, where originalFetch = model_fetch
      and now = "\<lambda>k. 50 * (int k + 1)" and store_at = "\<lambda>k. plain_object []" and startTime = 0
      and args = "[]"]
  show ?thesis by (rule conjunct2)
qed

lemma col_url_normal: "normalizeUrl (str ''a/d.bin'') = str ''a/d.bin''"
  "normalizeUrl (str ''b/d.bin'') = str ''b/d.bin''"
  by (simp_all add: normalizeUrl_def split_first_def str_def)

lemma col_same_basename: "urlsMatch (str ''a/d.bin'') (str ''b/d.bin'')"
  by (simp add: urlsMatch_def col_url_normal) (simp add: str_def endsWith_def split_pop_def)

lemma col_not_part: "\<not> str_includes (str ''a/d.bin'') (str ''.part'')"
  by (simp add: str_def)

lemma col_failed_intercept:
  "shouldInterceptFile col_cfg [str ''a/d.bin'' \<mapsto> Failed, str ''b/d.bin'' \<mapsto> Ready]
     (str ''a/d.bin'') = Some (str ''b/d.bin'')"
  by (simp add: shouldInterceptFile_def col_url_normal Let_def col_not_part col_cfg_def
      col_same_basename)

lemma col_failed_served:
  "fetch col_fetch col_cfg [str ''a/d.bin'' \<mapsto> Failed, str ''b/d.bin'' \<mapsto> Ready]
       (\<lambda>k. 50 * (int k + 1)) (\<lambda>k. plain_object [(str ''b/d.bin'', [2])]) 0 (str ''a/d.bin'') []
     = Intercepted (Some (Resolved
         \<lparr>resp_status = 200, resp_statusText = str ''OK'',
          content_type = str ''application/octet-stream'',
          content_length = str ''1'', resp_body = [2]\<rparr>))"
proof -
  have ne: "str ''b/d.bin'' \<noteq> []" by (simp add: str_def)
  have look: "getMergedFile (plain_object [(str ''b/d.bin'', [2])]) (str ''b/d.bin'')
      = Inr (Some (Buffer [2]))"
    by (rule getMergedFile_exact) simp
  have nw: "\<not> endsWith (str ''b/d.bin'') (str ''.wasm'')" by (simp add: endsWith_def str_def)
  have one: "decimal (Suc 0) = str ''1''"
    by (simp add: decimal.simps [of "Suc 0"] str_def)
  have "checkData (\<lambda>k. 50 * (int k + 1)) (\<lambda>k. plain_object [(str ''b/d.bin'', [2])]) 0
      (str ''b/d.bin'') 0
      = Some (Resolved
         \<lparr>resp_status = 200, resp_statusText = str ''OK'',
          content_type = str ''application/octet-stream'',
          content_length = str ''1'', resp_body = [2]\<rparr>)"
    by (subst checkData.simps) (simp add: look nw one)
  with col_failed_intercept ne show ?thesis by (simp add: fetch_def)
qed

text \<open>
  The claim as stated fails: \<^verbatim>\<open>/assets/model.bin\<close> matches the configured file, whose
  status is \<^verbatim>\<open>'failed'\<close>, and the call is delegated; it does not reject with the timeout
  error. And a request for a failed file is answered with a synthesized response when its
  URL also matches a file that is ready: \<^verbatim>\<open>a/d.bin\<close> has failed, \<^verbatim>\<open>b/d.bin\<close> has the same
  basename and is ready, and the request for \<^verbatim>\<open>a/d.bin\<close> resolves with the buffer of
  \<^verbatim>\<open>b/d.bin\<close>.
\<close>

theorem failed_file_times_out_counterexample:
  "urlsMatch (normalizeUrl (str ''/assets/model.bin'')) (str ''model.bin'') \<and>
   fetch model_fetch model_cfg [str ''model.bin'' \<mapsto> Failed] (\<lambda>k. 50 * (int k + 1))
       (\<lambda>k. plain_object []) 0 (str ''/assets/model.bin'') []
     = Delegated (Inr \<lparr>ok = False, status = 404, arrayBuffer = Inr []\<rparr>) \<and>
   fetch model_fetch model_cfg [str ''model.bin'' \<mapsto> Failed] (\<lambda>k. 50 * (int k + 1))
       (\<lambda>k. plain_object []) 0 (str ''/assets/model.bin'') []
     \<noteq> Intercepted (Some (Rejected (Error (str ''Timeout waiting for merged file: model.bin'')))) \<and>
   urlsMatch (normalizeUrl (str ''a/d.bin'')) (str ''a/d.bin'') \<and>
   fetch col_fetch col_cfg [str ''a/d.bin'' \<mapsto> Failed, str ''b/d.bin'' \<mapsto> Ready]
       (\<lambda>k. 50 * (int k + 1)) (\<lambda>k. plain_object [(str ''b/d.bin'', [2])]) 0 (str ''a/d.bin'') []
     = Intercepted (Some (Resolved
         \<lparr>resp_status = 200, resp_statusText = str ''OK'',
          content_type = str ''application/octet-stream'',
          content_length = str ''1'', resp_body = [2]\<rparr>))"
proof -
  have f: "model_fetch (str ''/assets/model.bin'') [] =
      Inr \<lparr>ok = False, status = 404, arrayBuffer = Inr []\<rparr>"
    by (simp add: model_fetch_def part_path_def decimal_digit str_def)
  have 1: "fetch model_fetch model_cfg [str ''model.bin'' \<mapsto> Failed] (\<lambda>k. 50 * (int k + 1))
       (\<lambda>k. plain_object []) 0 (str ''/assets/model.bin'') []
     = Delegated (Inr \<lparr>ok = False, status = 404, arrayBuffer = Inr []\<rparr>)"
    using model_failed_None f by (simp add: fetch_def)
  have 2: "urlsMatch (normalizeUrl (str ''a/d.bin'')) (str ''a/d.bin'')"
    by (simp add: col_url_normal urlsMatch_def)
  from model_url_matches 1 2 col_failed_served show ?thesis by simp
qed

section \<open>Properties of the fetch-style interceptor\<close>

lemma checkData_found:
  "getMergedFile (store_at k) filename = Inr (Some (Buffer buffer)) \<Longrightarrow>
   checkData now store_at startTime filename k =
     Some (Resolved
       \<lparr>resp_status = 200, resp_statusText = str ''OK'',
        content_type = (if endsWith filename (str ''.wasm'') then str ''application/wasm''
                        else str ''application/octet-stream''),
        content_length = decimal (length buffer), resp_body = buffer\<rparr>)"
  by (subst checkData.simps) simp

lemma checkData_skip:
  assumes "\<forall>j. k \<le> j \<and> j < k + n \<longrightarrow>
             getMergedFile (store_at j) filename = Inr None \<and> now j - startTime \<le> 30000"
  shows "checkData now store_at startTime filename k
         = checkData now store_at startTime filename (k + n)"
  using assms
proof (induction n arbitrary: k)
  case 0
  then show ?case by simp
next
  case (Suc n)
  from Suc.prems have here: "getMergedFile (store_at k) filename = Inr None"
    "now k - startTime \<le> 30000" by auto
  from Suc.prems have rest: "\<forall>j. Suc k \<le> j \<and> j < Suc k + n \<longrightarrow>
      getMergedFile (store_at j) filename = Inr None \<and> now j - startTime \<le> 30000" by auto
  have "checkData now store_at startTime filename k
        = checkData now store_at startTime filename (Suc k)"
    using here by (subst checkData.simps) auto
  with Suc.IH [OF rest] show ?case by simp
qed

lemma checkData_resolves:
  assumes "getMergedFile (store_at k) filename = Inr (Some (Buffer buffer))"
    and "\<forall>j<k. getMergedFile (store_at j) filename = Inr None \<and> now j - startTime \<le> 30000"
  shows "checkData now store_at startTime filename 0 =
     Some (Resolved
       \<lparr>resp_status = 200, resp_statusText = str ''OK'',
        content_type = (if endsWith filename (str ''.wasm'') then str ''application/wasm''
                        else str ''application/octet-stream''),
        content_length = decimal (length buffer), resp_body = buffer\<rparr>)"
proof -
  from assms(2) have "checkData now store_at startTime filename 0
      = checkData now store_at startTime filename (0 + k)"
    by (intro checkData_skip) simp
  with checkData_found [of store_at k filename buffer now startTime] assms(1)
  show ?thesis by simp
qed

lemma checkData_rejects:
  assumes "now k - startTime > 30000"
    and "\<forall>j\<le>k. getMergedFile (store_at j) filename = Inr None"
    and "\<forall>j<k. now j - startTime \<le> 30000"
  shows "checkData now store_at startTime filename 0 =
     Some (Rejected (Error (str ''Timeout waiting for merged file: '' @ filename)))"
proof -
  from assms(2,3) have "checkData now store_at startTime filename 0
      = checkData now store_at startTime filename (0 + k)"
    by (intro checkData_skip) simp
  then show ?thesis
    using assms(1,2)
    by (simp add: checkData.simps [of now store_at startTime filename k])
qed

text \<open>
  What an intercepted request finds: in every state that the orchestrator reaches, the
  file name that \<open>shouldInterceptFile\<close> returns is an own key of the store of that state
  and of every later state, and the buffer under it is the result of the merge of a
  configured file that assigns under that name.
\<close>

lemma intercepted_published:
  assumes "st = autoMergeFiles originalFetch sched order cfg
                  \<lparr>mergedFiles = m0, mergeStatus = Map.empty\<rparr>"
    and "shouldInterceptFile cfg (mergeStatus st) url = Some filename"
  shows "filename \<noteq> proto_key"
    and "published originalFetch sched cfg
           (mergedFiles (autoMergeFiles originalFetch sched (order @ later) cfg
              \<lparr>mergedFiles = m0, mergeStatus = Map.empty\<rparr>)) filename"
proof -
  from assms(2) have r: "mergeStatus st filename = Some Ready"
    by (rule shouldInterceptFile_Ready)
  have rp: "ready_published originalFetch sched cfg st"
    unfolding assms(1) by (rule autoMergeFiles_ready_published)
  with r show "filename \<noteq> proto_key" by (auto simp: ready_published_def)
  from rp r have "published originalFetch sched cfg (mergedFiles st) filename"
    by (simp add: ready_published_def)
  then show "published originalFetch sched cfg
      (mergedFiles (autoMergeFiles originalFetch sched (order @ later) cfg
         \<lparr>mergedFiles = m0, mergeStatus = Map.empty\<rparr>)) filename"
    unfolding assms(1) by (rule autoMergeFiles_published_later)
qed

text \<open>
  C4: a request intercepted in a state that the orchestrator has reached, whose first poll
  sees the store of that state or of a later one, resolves at that poll with status 200,
  the buffer stored under the file name as body, and the content type chosen by the
  \<^verbatim>\<open>.wasm\<close> suffix; it neither times out nor hangs. And for the polling loop as such,
  whatever the store holds at each poll, with \<open>now j - startTime\<close> the time elapsed at the
  \<open>j\<close>-th poll: if a poll finds a buffer and every poll before it found nothing and saw at
  most 30000 ms elapsed, the call resolves in the same way with that buffer; if the polls
  find nothing up to the first one that sees more than 30000 ms elapsed, the call rejects
  with the timeout error naming the file.
\<close>

theorem fetch_intercepted_outcome:
  assumes "st = autoMergeFiles originalFetch sched order cfg
                  \<lparr>mergedFiles = m0, mergeStatus = Map.empty\<rparr>"
    and "shouldInterceptFile cfg (mergeStatus st) url = Some filename" and "filename \<noteq> []"
    and "store_at 0 = mergedFiles (autoMergeFiles originalFetch sched (order @ later) cfg
                  \<lparr>mergedFiles = m0, mergeStatus = Map.empty\<rparr>)"
  shows "(\<exists>buffer.
            map_of (entries (store_at 0)) filename = Some buffer \<and>
            fetch originalFetch cfg (mergeStatus st) now store_at startTime url args =
              Intercepted (Some (Resolved
                \<lparr>resp_status = 200, resp_statusText = str ''OK'',
                 content_type = (if endsWith filename (str ''.wasm'') then str ''application/wasm''
                                 else str ''application/octet-stream''),
                 content_length = decimal (length buffer), resp_body = buffer\<rparr>))) \<and>
         (\<forall>stores k buffer.
            getMergedFile (stores k) filename = Inr (Some (Buffer buffer)) \<and>
            (\<forall>j<k. getMergedFile (stores j) filename = Inr None \<and> now j - startTime \<le> 30000) \<longrightarrow>
            fetch originalFetch cfg (mergeStatus st) now stores startTime url args =
              Intercepted (Some (Resolved
                \<lparr>resp_status = 200, resp_statusText = str ''OK'',
                 content_type = (if endsWith filename (str ''.wasm'') then str ''application/wasm''
                                 else str ''application/octet-stream''),
                 content_length = decimal (length buffer), resp_body = buffer\<rparr>))) \<and>
         (\<forall>stores k.
            now k - startTime > 30000 \<and>
            (\<forall>j\<le>k. getMergedFile (stores j) filename = Inr None) \<and>
            (\<forall>j<k. now j - startTime \<le> 30000) \<longrightarrow>
            fetch originalFetch cfg (mergeStatus st) now stores startTime url args =
              Intercepted (Some (Rejected
                (Error (str ''Timeout waiting for merged file: '' @ filename)))))"
proof -
  have f: "fetch originalFetch cfg (mergeStatus st) now stores startTime url args =
      Intercepted (checkData now stores startTime filename 0)" for stores
    using assms(2,3) by (simp add: fetch_def)
  from intercepted_published(2) [OF assms(1,2), of later]
  have p: "published originalFetch sched cfg (store_at 0) filename"
    unfolding assms(4) .
  from published_lookup [OF p intercepted_published(1) [OF assms(1,2)]] obtain buffer where
    b: "map_of (entries (store_at 0)) filename = Some buffer"
      "getMergedFile (store_at 0) filename = Inr (Some (Buffer buffer))"
    by blast
  from b(1) checkData_found [of store_at 0 filename buffer now startTime, OF b(2)]
  have 1: "\<exists>buffer.
            map_of (entries (store_at 0)) filename = Some buffer \<and>
            fetch originalFetch cfg (mergeStatus st) now store_at startTime url args =
              Intercepted (Some (Resolved
                \<lparr>resp_status = 200, resp_statusText = str ''OK'',
                 content_type = (if endsWith filename (str ''.wasm'') then str ''application/wasm''
                                 else str ''application/octet-stream''),
                 content_length = decimal (length buffer), resp_body = buffer\<rparr>))"
    unfolding f by blast
  have 2: "\<forall>stores k buffer.
            getMergedFile (stores k) filename = Inr (Some (Buffer buffer)) \<and>
            (\<forall>j<k. getMergedFile (stores j) filename = Inr None \<and> now j - startTime \<le> 30000) \<longrightarrow>
            fetch originalFetch cfg (mergeStatus st) now stores startTime url args =
              Intercepted (Some (Resolved
                \<lparr>resp_status = 200, resp_statusText = str ''OK'',
                 content_type = (if endsWith filename (str ''.wasm'') then str ''application/wasm''
                                 else str ''application/octet-stream''),
                 content_length = decimal (length buffer), resp_body = buffer\<rparr>))"
    unfolding f using checkData_resolves [of _ _ filename _ now startTime] by blast
  have 3: "\<forall>stores k.
            now k - startTime > 30000 \<and>
            (\<forall>j\<le>k. getMergedFile (stores j) filename = Inr None) \<and>
            (\<forall>j<k. now j - startTime \<le> 30000) \<longrightarrow>
            fetch originalFetch cfg (mergeStatus st) now stores startTime url args =
              Intercepted (Some (Rejected
                (Error (str ''Timeout waiting for merged file: '' @ filename))))"
    unfolding f using checkData_rejects [of now _ startTime _ filename] by blast
  from 1 2 3 show ?thesis by (intro conjI)
qed

lemma model_final_later:
  "(\<lambda>k::nat. mergedFiles model_final) 0 =
   mergedFiles (autoMergeFiles model_fetch model_sched ([0] @ []) model_cfg
     \<lparr>mergedFiles = plain_object [], mergeStatus = Map.empty\<rparr>)"
  by (simp add: model_final_def)

lemma model_name_nonempty: "str ''model.bin'' \<noteq> []"
  by (simp add: str_def)

lemma empty_lookup: "getMergedFile (plain_object []) (str ''model.bin'') = Inr None"
  by (simp add: getMergedFile_def store_get_def proto_key_def object_prototype_def str_def)

theorem fetch_intercepted_outcome_witness:
  "fetch model_fetch model_cfg (mergeStatus model_final) (\<lambda>k. 50 * (int k + 1))
       (\<lambda>k. mergedFiles model_final) 0 (str ''/assets/model.bin'') []
     = Intercepted (Some (Resolved
         \<lparr>resp_status = 200, resp_statusText = str ''OK'',
          content_type = str ''application/octet-stream'',
          content_length = str ''5'', resp_body = [1, 2, 3, 4, 5]\<rparr>)) \<and>
   fetch model_fetch model_cfg (mergeStatus model_final) (\<lambda>k. 50 * (int k + 1))
       (\<lambda>k. if k < 2 then plain_object [] else mergedFiles model_final) 0
       (str ''/assets/model.bin'') []
     = Intercepted (Some (Resolved
         \<lparr>resp_status = 200, resp_statusText = str ''OK'',
          content_type = str ''application/octet-stream'',
          content_length = str ''5'', resp_body = [1, 2, 3, 4, 5]\<rparr>)) \<and>
   fetch model_fetch model_cfg (mergeStatus model_final) (\<lambda>k. 20000 * (int k + 1))
       (\<lambda>k. plain_object []) 0 (str ''/assets/model.bin'') []
     = Intercepted (Some (Rejected
         (Error (str ''Timeout waiting for merged file: model.bin''))))"
proof -
  note t = fetch_intercepted_outcome [OF model_final_def model_final_intercept
      model_name_nonempty model_final_later, where args = "[]" and startTime = 0]
  from t [where now = "\<lambda>k. 50 * (int k + 1)", THEN conjunct1]
  obtain buffer where b: "map_of (entries (mergedFiles model_final)) (str ''model.bin'')
      = Some buffer"
    and r: "fetch model_fetch model_cfg (mergeStatus model_final) (\<lambda>k. 50 * (int k + 1))
       (\<lambda>k. mergedFiles model_final) 0 (str ''/assets/model.bin'') []
     = Intercepted (Some (Resolved
         \<lparr>resp_status = 200, resp_statusText = str ''OK'',
          content_type = (if endsWith (str ''model.bin'') (str ''.wasm'')
                          then str ''application/wasm'' else str ''application/octet-stream''),
          content_length = decimal (length buffer), resp_body = buffer\<rparr>))"
    by blast
  from b have "buffer = [1, 2, 3, 4, 5]" by (simp add: model_final_entries model_written)
  with r have 1: "fetch model_fetch model_cfg (mergeStatus model_final) (\<lambda>k. 50 * (int k + 1))
       (\<lambda>k. mergedFiles model_final) 0 (str ''/assets/model.bin'') []
     = Intercepted (Some (Resolved
         \<lparr>resp_status = 200, resp_statusText = str ''OK'',
          content_type = str ''application/octet-stream'',
          content_length = str ''5'', resp_body = [1, 2, 3, 4, 5]\<rparr>))"
    by (simp add: model_not_wasm five)
  have "\<forall>j<2::nat. j = 0 \<or> j = 1" by auto
  then have h2: "getMergedFile
        ((\<lambda>k. if k < 2 then plain_object [] else mergedFiles model_final) (2::nat))
        (str ''model.bin'') = Inr (Some (Buffer [1, 2, 3, 4, 5])) \<and>
      (\<forall>j<2. getMergedFile
         ((\<lambda>k::nat. if k < 2 then plain_object [] else mergedFiles model_final) j)
         (str ''model.bin'') = Inr None \<and> 50 * (int j + 1) - 0 \<le> 30000)"
    by (auto simp: model_final_lookup empty_lookup)
  from t [where now = "\<lambda>k. 50 * (int k + 1)", THEN conjunct2, THEN conjunct1, THEN spec,
      THEN spec, THEN spec, THEN mp, OF h2]
  have 2: "fetch model_fetch model_cfg (mergeStatus model_final) (\<lambda>k. 50 * (int k + 1))
       (\<lambda>k. if k < 2 then plain_object [] else mergedFiles model_final) 0
       (str ''/assets/model.bin'') []
     = Intercepted (Some (Resolved
         \<lparr>resp_status = 200, resp_statusText = str ''OK'',
          content_type = str ''application/octet-stream'',
          content_length = str ''5'', resp_body = [1, 2, 3, 4, 5]\<rparr>))"
    by (simp add: model_not_wasm five)
  have "\<forall>j<1::nat. j = 0" by auto
  then have h3: "20000 * (int (1::nat) + 1) - 0 > 30000 \<and>
      (\<forall>j\<le>1. getMergedFile ((\<lambda>k::nat. plain_object []) j) (str ''model.bin'') = Inr None) \<and>
      (\<forall>j<1::nat. 20000 * (int j + 1) - 0 \<le> 30000)"
    by (auto simp: empty_lookup)
  from t [where now = "\<lambda>k. 20000 * (int k + 1)", THEN conjunct2, THEN conjunct2, THEN spec,
      THEN spec, THEN mp, OF h3]
  have 3: "fetch model_fetch model_cfg (mergeStatus model_final) (\<lambda>k. 20000 * (int k + 1))
       (\<lambda>k. plain_object []) 0 (str ''/assets/model.bin'') []
     = Intercepted (Some (Rejected
         (Error (str ''Timeout waiting for merged file: model.bin''))))"
    by (simp add: str_def)
  from 1 2 3 show ?thesis by (intro conjI)
qed

text \<open>
  C10: in every state that the orchestrator reaches (after the merges at the positions
  \<open>order\<close> have settled), a file name returned by \<open>shouldInterceptFile\<close> is an own key of
  the store; the buffer stored under it is the result of the merge of a configured file
  that assigns under that name, and \<open>getMergedFile\<close> returns that buffer. Keys are never
  removed, so the same holds of the store of every later state, and the first poll of the
  fetch-style interceptor resolves with the buffer stored under the name, whatever the
  clock says: the timeout branch is not reached.
\<close>

theorem intercepted_buffer_present:
  assumes "st = autoMergeFiles originalFetch sched order cfg
                  \<lparr>mergedFiles = m0, mergeStatus = Map.empty\<rparr>"
    and "shouldInterceptFile cfg (mergeStatus st) url = Some filename"
    and "store_at 0 = mergedFiles (autoMergeFiles originalFetch sched (order @ later) cfg
                  \<lparr>mergedFiles = m0, mergeStatus = Map.empty\<rparr>)"
  shows "(\<exists>j buffer.
            j < length (files cfg) \<and> merge_of originalFetch sched cfg j = Inr buffer \<and>
            filename \<in> set (variants cfg (files cfg ! j)) \<and>
            map_of (entries (mergedFiles st)) filename = Some buffer \<and>
            getMergedFile (mergedFiles st) filename = Inr (Some (Buffer buffer))) \<and>
         (\<exists>j buffer.
            j < length (files cfg) \<and> merge_of originalFetch sched cfg j = Inr buffer \<and>
            filename \<in> set (variants cfg (files cfg ! j)) \<and>
            map_of (entries (store_at 0)) filename = Some buffer \<and>
            checkData now store_at startTime filename 0 =
              Some (Resolved
                \<lparr>resp_status = 200, resp_statusText = str ''OK'',
                 content_type = (if endsWith filename (str ''.wasm'') then str ''application/wasm''
                                 else str ''application/octet-stream''),
                 content_length = decimal (length buffer), resp_body = buffer\<rparr>))"
proof -
  note ne = intercepted_published(1) [OF assms(1,2)]
  from intercepted_published(2) [OF assms(1,2), of "[]"]
  have here: "published originalFetch sched cfg (mergedFiles st) filename"
    unfolding assms(1) by simp
  from intercepted_published(2) [OF assms(1,2), of later]
  have later: "published originalFetch sched cfg (store_at 0) filename"
    unfolding assms(3) .
  from published_lookup [OF here ne]
  have 1: "\<exists>j buffer.
            j < length (files cfg) \<and> merge_of originalFetch sched cfg j = Inr buffer \<and>
            filename \<in> set (variants cfg (files cfg ! j)) \<and>
            map_of (entries (mergedFiles st)) filename = Some buffer \<and>
            getMergedFile (mergedFiles st) filename = Inr (Some (Buffer buffer))" .
  from published_lookup [OF later ne] obtain j buffer where
    j: "j < length (files cfg)" "merge_of originalFetch sched cfg j = Inr buffer"
      "filename \<in> set (variants cfg (files cfg ! j))"
      "map_of (entries (store_at 0)) filename = Some buffer"
      "getMergedFile (store_at 0) filename = Inr (Some (Buffer buffer))"
    by blast
  from j(1-4) checkData_found [of store_at 0 filename buffer now startTime, OF j(5)]
  have 2: "\<exists>j buffer.
            j < length (files cfg) \<and> merge_of originalFetch sched cfg j = Inr buffer \<and>
            filename \<in> set (variants cfg (files cfg ! j)) \<and>
            map_of (entries (store_at 0)) filename = Some buffer \<and>
            checkData now store_at startTime filename 0 =
              Some (Resolved
                \<lparr>resp_status = 200, resp_statusText = str ''OK'',
                 content_type = (if endsWith filename (str ''.wasm'') then str ''application/wasm''
                                 else str ''application/octet-stream''),
                 content_length = decimal (length buffer), resp_body = buffer\<rparr>)"
    by blast
  from 1 2 show ?thesis by (rule conjI)
qed

theorem intercepted_buffer_present_witness:
  "map_of (entries (mergedFiles model_final)) (str ''model.bin'') = Some [1, 2, 3, 4, 5] \<and>
   getMergedFile (mergedFiles model_final) (str ''model.bin'')
     = Inr (Some (Buffer [1, 2, 3, 4, 5])) \<and>
   checkData (\<lambda>k. 100000) (\<lambda>k. mergedFiles model_final) 0 (str ''model.bin'') 0
     = Some (Resolved
         \<lparr>resp_status = 200, resp_statusText = str ''OK'',
          content_type = str ''application/octet-stream'',
          content_length = str ''5'', resp_body = [1, 2, 3, 4, 5]\<rparr>)"
proof -
  note t = intercepted_buffer_present [OF model_final_def model_final_intercept
      model_final_later, where now = "\<lambda>k. 100000" and startTime = 0]
  have only: "j < length (files model_cfg) \<Longrightarrow>
      merge_of model_fetch model_sched model_cfg j = Inr buffer \<Longrightarrow> buffer = [1, 2, 3, 4, 5]"
    for j buffer
    by (simp add: model_files model_merge_of)
  from t [THEN conjunct1] obtain j buffer where
    "j < length (files model_cfg)" "merge_of model_fetch model_sched model_cfg j = Inr buffer"
    and a: "map_of (entries (mergedFiles model_final)) (str ''model.bin'') = Some buffer"
      "getMergedFile (mergedFiles model_final) (str ''model.bin'') = Inr (Some (Buffer buffer))"
    by blast
  with only have 1: "map_of (entries (mergedFiles model_final)) (str ''model.bin'')
      = Some [1, 2, 3, 4, 5]"
    and 2: "getMergedFile (mergedFiles model_final) (str ''model.bin'')
      = Inr (Some (Buffer [1, 2, 3, 4, 5]))"
    by blast+
  from t [THEN conjunct2] obtain j' buffer' where
    "j' < length (files model_cfg)" "merge_of model_fetch model_sched model_cfg j' = Inr buffer'"
    and c: "checkData (\<lambda>k. 100000) (\<lambda>k. mergedFiles model_final) 0 (str ''model.bin'') 0
      = Some (Resolved
         \<lparr>resp_status = 200, resp_statusText = str ''OK'',
          content_type = (if endsWith (str ''model.bin'') (str ''.wasm'')
                          then str ''application/wasm'' else str ''application/octet-stream''),
          content_length = decimal (length buffer'), resp_body = buffer'\<rparr>)"
    by blast
  with only have "buffer' = [1, 2, 3, 4, 5]" by blast
  with c have 3: "checkData (\<lambda>k. 100000) (\<lambda>k. mergedFiles model_final) 0 (str ''model.bin'') 0
     = Some (Resolved
         \<lparr>resp_status = 200, resp_statusText = str ''OK'',
          content_type = str ''application/octet-stream'',
          content_length = str ''5'', resp_body = [1, 2, 3, 4, 5]\<rparr>)"
    by (simp add: model_not_wasm five)
  from 1 2 3 show ?thesis by (intro conjI)
qed

section \<open>Properties of the callback-style interceptor\<close>

lemma waitForMerge_skip:
  assumes "\<forall>j. k \<le> j \<and> j < k + n \<longrightarrow> getMergedFile (store_at j) filename = Inr None"
  shows "waitForMerge store_at hs filename x k trace
         = waitForMerge store_at hs filename x (k + n) (trace @ replicate n (SetTimeout 50))"
  using assms
proof (induction n arbitrary: k trace)
  case 0
  then show ?case by simp
next
  case (Suc n)
  from Suc.prems have here: "getMergedFile (store_at k) filename = Inr None" by auto
  from Suc.prems have rest: "\<forall>j. Suc k \<le> j \<and> j < Suc k + n \<longrightarrow>
      getMergedFile (store_at j) filename = Inr None" by auto
  have "waitForMerge store_at hs filename x k trace
      = waitForMerge store_at hs filename x (Suc k) (trace @ [SetTimeout 50])"
    using here by (subst waitForMerge.simps) simp
  with Suc.IH [OF rest, of "trace @ [SetTimeout 50]"] show ?case by simp
qed

lemma waitForMerge_found:
  assumes "getMergedFile (store_at k) filename = Inr (Some buffer)"
    and "\<forall>j<k. getMergedFile (store_at j) filename = Inr None"
    and "p = \<lparr>xhr_response = uint8_buffer buffer, xhr_responseType = str ''arraybuffer'',
              xhr_status = 200, xhr_statusText = str ''OK'', xhr_readyState = 4\<rparr>"
  shows "waitForMerge store_at hs filename x 0 [] =
     Some (x\<lparr>own_getters := Some p\<rparr>,
           replicate k (SetTimeout 50) @ [DefineProperties p, SetTimeout 10] @
           fire_events hs buffer)"
proof -
  from assms(2) have "waitForMerge store_at hs filename x 0 []
      = waitForMerge store_at hs filename x (0 + k) ([] @ replicate k (SetTimeout 50))"
    by (intro waitForMerge_skip) simp
  then show ?thesis
    by (simp add: waitForMerge.simps [of store_at hs filename x k] assms(1,3) Let_def)
qed

text \<open>
  C9, as amended: for an intercepted request, \<^verbatim>\<open>waitForMerge\<close> runs every 50 ms until a
  run finds a buffer. That run first defines the getters, so that the request object reads
  status 200, status text \<^verbatim>\<open>OK\<close>, ready state 4 and the buffer as response, and then
  schedules a callback with a delay of 10 ms. The callback delivers the notifications
  whose handler property is set, in the order \<^verbatim>\<open>onprogress\<close>, \<^verbatim>\<open>onload\<close>,
  \<^verbatim>\<open>onreadystatechange\<close>, and stops at a handler that throws. The progress and the load
  event carry \<open>loaded = total =\<close> the length of the buffer, and the state-change handler
  is called without an event.
\<close>

theorem xhr_intercepted_completion:
  assumes "shouldInterceptFile cfg status_map (requestUrl x) = Some filename"
    and "filename \<noteq> []"
    and "getMergedFile (store_at k) filename = Inr (Some (Buffer buffer))"
    and "\<forall>j<k. getMergedFile (store_at j) filename = Inr None"
    and "synth = \<lparr>xhr_response = buffer, xhr_responseType = str ''arraybuffer'',
                  xhr_status = 200, xhr_statusText = str ''OK'', xhr_readyState = 4\<rparr>"
  shows "xhr_send originalSend cfg status_map store_at hs x args =
           SendIntercepted (Some
             (x\<lparr>own_getters := Some synth\<rparr>,
              replicate k (SetTimeout 50) @
              [DefineProperties synth, SetTimeout 10] @
              call_handlers
                [(str ''onprogress'',
                  Some \<lparr>ev_type = str ''progress'', lengthComputable = True,
                        loaded = Some (length buffer), total = Some (length buffer),
                        has_target = False\<rparr>,
                  onprogress hs),
                 (str ''onload'',
                  Some \<lparr>ev_type = str ''load'', lengthComputable = True,
                        loaded = Some (length buffer), total = Some (length buffer),
                        has_target = True\<rparr>,
                  onload hs),
                 (str ''onreadystatechange'', None, onreadystatechange hs)])) \<and>
         observe (x\<lparr>own_getters := Some synth\<rparr>) = Inl synth"
proof -
  have p: "synth = \<lparr>xhr_response = uint8_buffer (Buffer buffer),
      xhr_responseType = str ''arraybuffer'', xhr_status = 200, xhr_statusText = str ''OK'',
      xhr_readyState = 4\<rparr>"
    by (simp add: assms(5) uint8_buffer_def)
  from waitForMerge_found [OF assms(3,4) p, of hs x] assms(1,2)
  show ?thesis
    by (simp add: xhr_send_def fire_events_def byteLength_def observe_def)
qed

lemma model_request_url: "requestUrl model_request = str ''/assets/model.bin''"
  by (simp add: model_request_def xhr_open_def)

lemma model_request_intercept:
  "shouldInterceptFile model_cfg (mergeStatus model_final) (requestUrl model_request)
   = Some (str ''model.bin'')"
  unfolding model_request_url by (rule model_final_intercept)

lemma model_late_lookup:
  "getMergedFile ((\<lambda>k. if k < 2 then plain_object [] else mergedFiles model_final) (2::nat))
     (str ''model.bin'') = Inr (Some (Buffer [1, 2, 3, 4, 5]))"
  "\<forall>j<2. getMergedFile
     ((\<lambda>k::nat. if k < 2 then plain_object [] else mergedFiles model_final) j)
     (str ''model.bin'') = Inr None"
  by (simp_all add: model_final_lookup empty_lookup)

theorem xhr_intercepted_completion_witness:
  "xhr_send plain_send model_cfg (mergeStatus model_final) (\<lambda>k. mergedFiles model_final)
       all_handlers model_request [] =
     SendIntercepted (Some
       (model_request\<lparr>own_getters := Some model_synth\<rparr>,
        [DefineProperties model_synth, SetTimeout 10,
         Call (str ''onprogress'')
           (Some \<lparr>ev_type = str ''progress'', lengthComputable = True,
                  loaded = Some 5, total = Some 5, has_target = False\<rparr>),
         Call (str ''onload'')
           (Some \<lparr>ev_type = str ''load'', lengthComputable = True,
                  loaded = Some 5, total = Some 5, has_target = True\<rparr>),
         Call (str ''onreadystatechange'') None])) \<and>
   xhr_send plain_send model_cfg (mergeStatus model_final)
       (\<lambda>k. if k < 2 then plain_object [] else mergedFiles model_final) all_handlers
       model_request [] =
     SendIntercepted (Some
       (model_request\<lparr>own_getters := Some model_synth\<rparr>,
        [SetTimeout 50, SetTimeout 50, DefineProperties model_synth, SetTimeout 10,
         Call (str ''onprogress'')
           (Some \<lparr>ev_type = str ''progress'', lengthComputable = True,
                  loaded = Some 5, total = Some 5, has_target = False\<rparr>),
         Call (str ''onload'')
           (Some \<lparr>ev_type = str ''load'', lengthComputable = True,
                  loaded = Some 5, total = Some 5, has_target = True\<rparr>),
         Call (str ''onreadystatechange'') None])) \<and>
   observe (model_request\<lparr>own_getters := Some model_synth\<rparr>) = Inl model_synth"
proof -
  have now: "getMergedFile ((\<lambda>k::nat. mergedFiles model_final) 0) (str ''model.bin'')
      = Inr (Some (Buffer [1, 2, 3, 4, 5]))"
    "\<forall>j<0::nat. getMergedFile ((\<lambda>k::nat. mergedFiles model_final) j) (str ''model.bin'')
      = Inr None"
    by (simp_all add: model_final_lookup)
  note t0 = xhr_intercepted_completion [OF model_request_intercept model_name_nonempty
      now model_synth_def, where hs = all_handlers and originalSend = plain_send
      and args = "[]"]
  note t2 = xhr_intercepted_completion [OF model_request_intercept model_name_nonempty
      model_late_lookup model_synth_def, where hs = all_handlers and originalSend = plain_send
      and args = "[]"]
  have r: "replicate 2 (SetTimeout 50) = [SetTimeout 50, SetTimeout 50]"
    by (simp add: numeral_2_eq_2)
  from t0 [THEN conjunct1]
  have 0: "xhr_send plain_send model_cfg (mergeStatus model_final)
       (\<lambda>k. mergedFiles model_final) all_handlers model_request [] =
     SendIntercepted (Some
       (model_request\<lparr>own_getters := Some model_synth\<rparr>,
        [DefineProperties model_synth, SetTimeout 10,
         Call (str ''onprogress'')
           (Some \<lparr>ev_type = str ''progress'', lengthComputable = True,
                  loaded = Some 5, total = Some 5, has_target = False\<rparr>),
         Call (str ''onload'')
           (Some \<lparr>ev_type = str ''load'', lengthComputable = True,
                  loaded = Some 5, total = Some 5, has_target = True\<rparr>),
         Call (str ''onreadystatechange'') None]))"
    by (simp add: all_handlers_def)
  from t2 [THEN conjunct1]
  have 1: "xhr_send plain_send model_cfg (mergeStatus model_final)
       (\<lambda>k. if k < 2 then plain_object [] else mergedFiles model_final) all_handlers
       model_request [] =
     SendIntercepted (Some
       (model_request\<lparr>own_getters := Some model_synth\<rparr>,
        [SetTimeout 50, SetTimeout 50, DefineProperties model_synth, SetTimeout 10,
         Call (str ''onprogress'')
           (Some \<lparr>ev_type = str ''progress'', lengthComputable = True,
                  loaded = Some 5, total = Some 5, has_target = False\<rparr>),
         Call (str ''onload'')
           (Some \<lparr>ev_type = str ''load'', lengthComputable = True,
                  loaded = Some 5, total = Some 5, has_target = True\<rparr>),
         Call (str ''onreadystatechange'') None]))"
    by (simp add: r all_handlers_def)
  from 0 1 t2 [THEN conjunct2] show ?thesis by (intro conjI)
qed

lemma model_send_now:
  "xhr_send plain_send model_cfg (mergeStatus model_final) (\<lambda>k. mergedFiles model_final) hs
     model_request [] =
   SendIntercepted (Some
     (model_request\<lparr>own_getters := Some model_synth\<rparr>,
      [DefineProperties model_synth, SetTimeout 10] @
      fire_events hs (Buffer [1, 2, 3, 4, 5])))"
proof -
  have p: "model_synth = \<lparr>xhr_response = uint8_buffer (Buffer [1, 2, 3, 4, 5]),
      xhr_responseType = str ''arraybuffer'', xhr_status = 200, xhr_statusText = str ''OK'',
      xhr_readyState = 4\<rparr>"
    by (simp add: model_synth_def uint8_buffer_def)
  have "waitForMerge (\<lambda>k. mergedFiles model_final) hs (str ''model.bin'') model_request 0 []
      = Some (model_request\<lparr>own_getters := Some model_synth\<rparr>,
          replicate 0 (SetTimeout 50) @ [DefineProperties model_synth, SetTimeout 10] @
          fire_events hs (Buffer [1, 2, 3, 4, 5]))"
    by (rule waitForMerge_found [where k = 0]) (simp_all add: model_final_lookup p)
  with model_request_intercept model_name_nonempty show ?thesis
    by (simp add: xhr_send_def)
qed

text \<open>
  The claim as stated fails for the third notification: the state-change handler is
  called with no argument, so it carries no length information. A notification whose
  handler property is not set is not delivered: with only \<^verbatim>\<open>onload\<close> set, the load
  notification is the only one. And when a handler throws, the notifications after it are
  not delivered: with a progress handler that throws, the load and the state-change
  handler are never called.
\<close>

theorem state_change_length_counterexample:
  "xhr_send plain_send model_cfg (mergeStatus model_final) (\<lambda>k. mergedFiles model_final)
       all_handlers model_request [] =
     SendIntercepted (Some
       (model_request\<lparr>own_getters := Some model_synth\<rparr>,
        [DefineProperties model_synth, SetTimeout 10,
         Call (str ''onprogress'')
           (Some \<lparr>ev_type = str ''progress'', lengthComputable = True,
                  loaded = Some 5, total = Some 5, has_target = False\<rparr>),
         Call (str ''onload'')
           (Some \<lparr>ev_type = str ''load'', lengthComputable = True,
                  loaded = Some 5, total = Some 5, has_target = True\<rparr>),
         Call (str ''onreadystatechange'') None])) \<and>
   xhr_send plain_send model_cfg (mergeStatus model_final) (\<lambda>k. mergedFiles model_final)
       \<lparr>onprogress = None, onload = Some Returns, onreadystatechange = None\<rparr> model_request [] =
     SendIntercepted (Some
       (model_request\<lparr>own_getters := Some model_synth\<rparr>,
        [DefineProperties model_synth, SetTimeout 10,
         Call (str ''onload'')
           (Some \<lparr>ev_type = str ''load'', lengthComputable = True,
                  loaded = Some 5, total = Some 5, has_target = True\<rparr>)])) \<and>
   xhr_send plain_send model_cfg (mergeStatus model_final) (\<lambda>k. mergedFiles model_final)
       \<lparr>onprogress = Some (Throws (Error (str ''boom''))), onload = Some Returns,
        onreadystatechange = Some Returns\<rparr> model_request [] =
     SendIntercepted (Some
       (model_request\<lparr>own_getters := Some model_synth\<rparr>,
        [DefineProperties model_synth, SetTimeout 10,
         Call (str ''onprogress'')
           (Some \<lparr>ev_type = str ''progress'', lengthComputable = True,
                  loaded = Some 5, total = Some 5, has_target = False\<rparr>),
         Raise (Error (str ''boom''))]))"
  by (simp add: model_send_now fire_events_def byteLength_def all_handlers_def)

section \<open>A request object used twice\<close>

text \<open>
  When \<open>shouldInterceptFile\<close> yields no file name for the URL, the wrapped \<^verbatim>\<open>fetch\<close> is
  the original \<^verbatim>\<open>fetch\<close> called with the same URL and arguments, and the wrapped request
  object calls the original \<^verbatim>\<open>open\<close> and the original \<^verbatim>\<open>send\<close> with the same
  arguments; on an object without own getters the caller then reads what the native object
  has.
\<close>

lemma unmatched_requests_delegated:
  assumes "shouldInterceptFile cfg status_map url = None"
  shows "fetch originalFetch cfg status_map now store_at startTime url args
           = Delegated (originalFetch url args)"
    and "xhr_send originalSend cfg status_map store_at hs
             (xhr_open originalOpen x method url open_args) send_args
           = SendDelegated
               (x\<lparr>requestUrl := url,
                  native := originalSend (originalOpen (native x) method url open_args)
                              send_args\<rparr>)"
    and "own_getters x = None \<Longrightarrow>
         observe (x\<lparr>requestUrl := url,
                    native := originalSend (originalOpen (native x) method url open_args)
                                send_args\<rparr>)
           = Inr (originalSend (originalOpen (native x) method url open_args) send_args)"
  using assms by (simp_all add: fetch_def xhr_send_def xhr_open_def observe_def)

text \<open>
  C6 fails on a request object that is used twice. The first request, for
  \<^verbatim>\<open>/assets/model.bin\<close>, is intercepted and leaves the five getters on the object. The
  object is then opened on \<^verbatim>\<open>/other/file.txt\<close>, which matches no configured file: its
  \<^verbatim>\<open>send\<close> is delegated and the server answers 404, but the getters are still there, and
  the caller reads status 200, ready state 4 and the merged buffer of the first request.
  A new object used for the same request shows the 404.
\<close>

theorem reused_request_object_stale:
  "xhr_send plain_send model_cfg (mergeStatus model_final) (\<lambda>k. mergedFiles model_final)
       all_handlers model_request []
     = SendIntercepted (Some
         (model_request\<lparr>own_getters := Some model_synth\<rparr>,
          [DefineProperties model_synth, SetTimeout 10] @
          fire_events all_handlers (Buffer [1, 2, 3, 4, 5]))) \<and>
   shouldInterceptFile model_cfg (mergeStatus model_final) (str ''/other/file.txt'') = None \<and>
   xhr_send plain_send model_cfg (mergeStatus model_final) (\<lambda>k. mergedFiles model_final)
       all_handlers
       (xhr_open plain_open (model_request\<lparr>own_getters := Some model_synth\<rparr>) (str ''GET'')
          (str ''/other/file.txt'') []) []
     = SendDelegated
         \<lparr>requestUrl = str ''/other/file.txt'', own_getters = Some model_synth,
          native = not_found\<rparr> \<and>
   observe \<lparr>requestUrl = str ''/other/file.txt'', own_getters = Some model_synth,
            native = not_found\<rparr> = Inl model_synth \<and>
   xhr_status model_synth = 200 \<and> xhr_readyState model_synth = 4 \<and>
   xhr_response model_synth = [1, 2, 3, 4, 5] \<and>
   xhr_send plain_send model_cfg (mergeStatus model_final) (\<lambda>k. mergedFiles model_final)
       all_handlers
       (xhr_open plain_open (new_XMLHttpRequest unsent) (str ''GET'') (str ''/other/file.txt'') [])
       []
     = SendDelegated
         \<lparr>requestUrl = str ''/other/file.txt'', own_getters = None, native = not_found\<rparr> \<and>
   observe \<lparr>requestUrl = str ''/other/file.txt'', own_getters = None, native = not_found\<rparr>
     = Inr not_found \<and>
   xhr_status not_found = 404"
proof -
  have 3: "xhr_send plain_send model_cfg (mergeStatus model_final)
       (\<lambda>k. mergedFiles model_final) all_handlers
       (xhr_open plain_open (model_request\<lparr>own_getters := Some model_synth\<rparr>) (str ''GET'')
          (str ''/other/file.txt'') []) []
     = SendDelegated
         \<lparr>requestUrl = str ''/other/file.txt'', own_getters = Some model_synth,
          native = not_found\<rparr>"
    by (simp add: xhr_send_def xhr_open_def model_other_url model_request_def
        new_XMLHttpRequest_def plain_send_def)
  have 4: "xhr_send plain_send model_cfg (mergeStatus model_final)
       (\<lambda>k. mergedFiles model_final) all_handlers
       (xhr_open plain_open (new_XMLHttpRequest unsent) (str ''GET'') (str ''/other/file.txt'') [])
       []
     = SendDelegated
         \<lparr>requestUrl = str ''/other/file.txt'', own_getters = None, native = not_found\<rparr>"
    by (simp add: xhr_send_def xhr_open_def model_other_url new_XMLHttpRequest_def
        plain_send_def)
  from model_send_now [of all_handlers] model_other_url [of "mergeStatus model_final"] 3 4
  show ?thesis
    by (simp add: observe_def model_synth_def not_found_def)
qed
section \<open>Failure of a merge\<close>

lemma rejections_some:
  assumes "i \<in> set order" and "i < length rs" and "rs ! i = Inl e"
  shows "rejections order rs \<noteq> []"
  using assms by (induction order) (auto simp: rejections_def split: sum.splits option.splits)

lemma promise_all_rejects:
  assumes "i < length rs" and "rs ! i = Inl e"
  shows "\<exists>e'. promise_all order rs = Inl e'"
proof -
  have "i \<in> set (order @ [0..<length rs])" using assms(1) by simp
  from rejections_some [OF this assms] obtain e' es where
    "rejections (order @ [0..<length rs]) rs = e' # es"
    by (cases "rejections (order @ [0..<length rs]) rs") auto
  then show ?thesis by (simp add: promise_all_def)
qed

lemma promise_all_cases:
  "(\<exists>e. promise_all order rs = Inl e) \<or> (\<exists>vs. rs = map Inr vs \<and> promise_all order rs = Inr vs)"
proof (cases "\<exists>i<length rs. isl (rs ! i)")
  case True
  then obtain i e where "i < length rs" "rs ! i = Inl e" by (auto simp: isl_def)
  from promise_all_rejects [OF this] show ?thesis by blast
next
  case False
  then have "\<forall>r\<in>set rs. \<exists>v. r = Inr v"
    by (metis in_set_conv_nth isl_def sum.exhaust_sel sum.collapse(2))
  then have "rs = map Inr (map projr rs)"
    by (induction rs) auto
  then show ?thesis using promise_all_fulfilled [of order "map projr rs"] by metis
qed

lemma check_responses_first:
  "length ps = length rs \<Longrightarrow> j < length rs \<Longrightarrow> \<not> ok (rs ! j) \<Longrightarrow> \<forall>q<j. ok (rs ! q) \<Longrightarrow>
   check_responses ps rs
   = Some (Error (str ''Failed to load '' @ ps ! j @ str '': '' @ decimal (status (rs ! j))))"
proof (induction ps rs arbitrary: j rule: check_responses.induct)
  case (1 p ps r rs)
  show ?case
  proof (cases j)
    case 0
    with 1 show ?thesis by simp
  next
    case (Suc j')
    with "1.prems" have "ok r" by auto
    moreover from Suc "1.prems" have "\<forall>q<j'. ok (rs ! q)" by auto
    ultimately show ?thesis using 1 Suc by simp
  qed
qed simp_all

lemma check_responses_some:
  "length ps = length rs \<Longrightarrow> \<exists>r\<in>set rs. \<not> ok r \<Longrightarrow> check_responses ps rs \<noteq> None"
  by (induction ps rs rule: check_responses.induct) auto

lemma mergeSplitFiles_fails:
  assumes "p < numParts" and "part_fails originalFetch (part_path filePath (Suc p))"
  shows "\<exists>err. mergeSplitFiles originalFetch fetch_order read_order filePath numParts = Inl err"
proof -
  define parts where "parts = map (part_path filePath) [1..<Suc numParts]"
  have len: "length parts = numParts" by (simp add: parts_def)
  have nth: "parts ! p = part_path filePath (Suc p)"
    using assms(1) unfolding parts_def by (simp add: nth_map_upt del: upt_Suc)
  consider e where "promise_all fetch_order (map (\<lambda>part. originalFetch part []) parts) = Inl e"
    | rs where "map (\<lambda>part. originalFetch part []) parts = map Inr rs"
        "promise_all fetch_order (map (\<lambda>part. originalFetch part []) parts) = Inr rs"
    using promise_all_cases by blast
  then show ?thesis
  proof cases
    case 1
    then show ?thesis
      unfolding mergeSplitFiles_def Let_def parts_def [symmetric] by simp
  next
    case 2
    from 2(1) have lrs: "length rs = numParts" using len by (metis length_map)
    from 2(1) have "originalFetch (parts ! p) [] = Inr (rs ! p)"
      using assms(1) len lrs by (metis nth_map)
    with assms(2) nth have bad: "\<not> ok (rs ! p) \<or> isl (arrayBuffer (rs ! p))"
      by (simp add: part_fails_def)
    show ?thesis
    proof (cases "check_responses parts rs")
      case (Some err)
      with 2(2) show ?thesis
        unfolding mergeSplitFiles_def Let_def parts_def [symmetric] by simp
    next
      case None
      have "\<not> (\<exists>r\<in>set rs. \<not> ok r)"
        using check_responses_some [of parts rs] None len lrs by auto
      with bad assms(1) lrs have "isl (arrayBuffer (rs ! p))" by auto
      then obtain e where "map arrayBuffer rs ! p = Inl e"
        using assms(1) lrs by (auto simp: isl_def)
      from promise_all_rejects [OF _ this, of read_order] assms(1) lrs obtain e' where
        "promise_all read_order (map arrayBuffer rs) = Inl e'" by auto
      with 2(2) None show ?thesis
        unfolding mergeSplitFiles_def Let_def parts_def [symmetric] by simp
    qed
  qed
qed

lemma mergeSplitFiles_names_part:
  assumes all: "\<forall>q<numParts. \<exists>r. originalFetch (part_path filePath (Suc q)) [] = Inr r"
    and p: "p < numParts" "originalFetch (part_path filePath (Suc p)) [] = Inr rp" "\<not> ok rp"
    and before: "\<forall>q<p. \<exists>r. originalFetch (part_path filePath (Suc q)) [] = Inr r \<and> ok r"
  shows "mergeSplitFiles originalFetch fetch_order read_order filePath numParts
         = Inl (Error (str ''Failed to load '' @ part_path filePath (Suc p) @ str '': '' @
                  decimal (status rp)))"
proof -
  define parts where "parts = map (part_path filePath) [1..<Suc numParts]"
  define rs where "rs = map (\<lambda>part. projr (originalFetch part [])) parts"
  have len: "length parts = numParts" by (simp add: parts_def)
  have nth: "parts ! q = part_path filePath (Suc q)" if "q < numParts" for q
    using that unfolding parts_def by (simp add: nth_map_upt del: upt_Suc)
  have "map (\<lambda>part. originalFetch part []) parts = map Inr rs"
    unfolding rs_def map_map comp_def
  proof (rule nth_equalityI)
    show "length (map (\<lambda>part. originalFetch part []) parts)
        = length (map (\<lambda>x. Inr (projr (originalFetch x []))) parts)" by simp
  next
    fix q assume "q < length (map (\<lambda>part. originalFetch part []) parts)"
    then have q: "q < numParts" using len by simp
    with all obtain r where "originalFetch (part_path filePath (Suc q)) [] = Inr r" by blast
    with q len show "map (\<lambda>part. originalFetch part []) parts ! q
        = map (\<lambda>x. Inr (projr (originalFetch x []))) parts ! q"
      by (simp add: nth)
  qed
  then have pa: "promise_all fetch_order (map (\<lambda>part. originalFetch part []) parts) = Inr rs"
    by (simp add: promise_all_fulfilled)
  have lrs: "length rs = numParts" by (simp add: rs_def len)
  have rsq: "rs ! q = projr (originalFetch (part_path filePath (Suc q)) [])" if "q < numParts" for q
    using that len by (simp add: rs_def nth)
  have 1: "\<not> ok (rs ! p)" using p by (simp add: rsq)
  have 2: "\<forall>q<p. ok (rs ! q)"
  proof (intro allI impI)
    fix q assume "q < p"
    with before obtain r where "originalFetch (part_path filePath (Suc q)) [] = Inr r" "ok r"
      by blast
    with \<open>q < p\<close> p(1) show "ok (rs ! q)" by (simp add: rsq)
  qed
  have "check_responses parts rs
      = Some (Error (str ''Failed to load '' @ parts ! p @ str '': '' @ decimal (status (rs ! p))))"
    using check_responses_first [of parts rs p] len lrs p(1) 1 2 by simp
  then show ?thesis
    unfolding mergeSplitFiles_def Let_def parts_def [symmetric] pa
    using p by (simp add: nth rsq)
qed

lemma mergeSplitFiles_succeeds:
  assumes "\<forall>q<numParts. \<exists>r b. originalFetch (part_path filePath (Suc q)) [] = Inr r \<and> ok r \<and>
             arrayBuffer r = Inr b"
  shows "\<exists>buffer. mergeSplitFiles originalFetch fetch_order read_order filePath numParts
           = Inr buffer"
proof -
  define body where
    "body i = projr (arrayBuffer (projr (originalFetch (part_path filePath i) [])))" for i
  have "\<forall>i<numParts. \<exists>r. originalFetch (part_path filePath (Suc i)) [] = Inr r \<and> ok r \<and>
      arrayBuffer r = Inr (body (Suc i))"
    using assms unfolding body_def by fastforce
  from mergeSplitFiles_bodies [of numParts originalFetch filePath body, OF this]
  show ?thesis by blast
qed


section \<open>The final state of the orchestrator\<close>

lemma status_untouched:
  "\<forall>j\<in>set js. j < length (files cfg) \<longrightarrow> name (files cfg ! j) \<noteq> n \<Longrightarrow>
   mergeStatus (foldl (settle originalFetch sched cfg) st js) n = mergeStatus st n"
proof (induction js arbitrary: st)
  case Nil
  then show ?case by simp
next
  case (Cons j js)
  from Cons.prems have "j < length (files cfg) \<longrightarrow> n \<noteq> name (files cfg ! j)" by auto
  then have "mergeStatus (settle originalFetch sched cfg st j) n = mergeStatus st n"
    by (rule settle_status_other)
  with Cons show ?case by simp
qed

lemma settle_keeps_plain:
  assumes "\<forall>j<length (files cfg). proto_key \<notin> set (variants cfg (files cfg ! j))"
    and "proto (mergedFiles st) = None"
  shows "proto (mergedFiles (settle originalFetch sched cfg st i)) = None"
proof (cases "i < length (files cfg)")
  case True
  with assms show ?thesis by (simp add: settle_plain_proto)
next
  case False
  with assms(2) show ?thesis by (simp add: settle_out_of_range)
qed

lemma status_final:
  assumes "\<forall>j<length (files cfg). proto_key \<notin> set (variants cfg (files cfg ! j))"
    and "i < length (files cfg)"
    and "\<forall>j\<in>set order. j < length (files cfg) \<longrightarrow> j \<noteq> i \<longrightarrow>
           name (files cfg ! j) \<noteq> name (files cfg ! i)"
    and "i \<in> set order"
    and "proto (mergedFiles st) = None"
  shows "mergeStatus (foldl (settle originalFetch sched cfg) st order) (name (files cfg ! i))
         = Some (outcome originalFetch sched cfg i)"
  using assms(3,4,5)
proof (induction order arbitrary: st)
  case Nil
  then show ?case by simp
next
  case (Cons j js)
  show ?case
  proof (cases "i \<in> set js")
    case True
    from settle_keeps_plain [OF assms(1) Cons.prems(3)]
    have "proto (mergedFiles (settle originalFetch sched cfg st j)) = None" .
    with Cons True show ?thesis by simp
  next
    case False
    with Cons.prems have j: "j = i" by simp
    from False Cons.prems have "\<forall>k\<in>set js. k < length (files cfg) \<longrightarrow>
        name (files cfg ! k) \<noteq> name (files cfg ! i)" by auto
    from status_untouched [OF this, of originalFetch sched
        "settle originalFetch sched cfg st i"] j assms(1,2) Cons.prems(3)
    show ?thesis by (simp add: settle_status)
  qed
qed

lemma distinct_names:
  "distinct (map name fs) \<Longrightarrow> i < length fs \<Longrightarrow> j < length fs \<Longrightarrow> j \<noteq> i \<Longrightarrow>
   name (fs ! j) \<noteq> name (fs ! i)"
  by (metis distinct_conv_nth length_map nth_map)

text \<open>
  C2, as amended: when the logical names of the configured files are pairwise distinct,
  none of the keys of a configured file is \<^verbatim>\<open>__proto__\<close> and the store starts with
  \<^verbatim>\<open>Object.prototype\<close> as its prototype, a file \<open>x\<close> one of whose part fetches fails (the
  fetch rejects, the response is not \<^verbatim>\<open>ok\<close>, or the body cannot be read) has a failed
  merge, its callback leaves the store as it was, and its status ends as \<^verbatim>\<open>'failed'\<close>; a
  file \<open>y\<close> whose parts all succeed and whose name and full path can be URI-encoded ends
  as \<^verbatim>\<open>'ready'\<close>; and when every part fetch of \<open>x\<close> produced a response, the error names
  the first part whose response is not \<^verbatim>\<open>ok\<close> and the status of that response.
\<close>

theorem failure_isolation:
  assumes "distinct (map name (files cfg))"
    and "\<forall>j<length (files cfg). proto_key \<notin> set (variants cfg (files cfg ! j))"
    and "proto (mergedFiles st0) = None"
    and "final = autoMergeFiles originalFetch sched order cfg st0"
    and "x < length (files cfg)" and "x \<in> set order"
    and "y < length (files cfg)" and "y \<in> set order"
    and "p < parts (files cfg ! x)"
    and "part_fails originalFetch (part_path (full_path cfg (name (files cfg ! x))) (Suc p))"
    and "\<forall>q<parts (files cfg ! y). \<exists>r b.
           originalFetch (part_path (full_path cfg (name (files cfg ! y))) (Suc q)) [] = Inr r \<and>
           ok r \<and> arrayBuffer r = Inr b"
    and "encodeURIComponent (name (files cfg ! y)) \<noteq> None"
    and "encodeURIComponent (full_path cfg (name (files cfg ! y))) \<noteq> None"
  shows "(\<exists>err. merge_of originalFetch sched cfg x = Inl err) \<and>
         (\<forall>st. mergedFiles (settle originalFetch sched cfg st x) = mergedFiles st) \<and>
         mergeStatus final (name (files cfg ! x)) = Some Failed \<and>
         mergeStatus final (name (files cfg ! y)) = Some Ready \<and>
         ((\<forall>q<parts (files cfg ! x). \<exists>r.
              originalFetch (part_path (full_path cfg (name (files cfg ! x))) (Suc q)) [] = Inr r) \<and>
          (\<forall>q<p. \<exists>r.
              originalFetch (part_path (full_path cfg (name (files cfg ! x))) (Suc q)) [] = Inr r \<and>
              ok r) \<and>
          originalFetch (part_path (full_path cfg (name (files cfg ! x))) (Suc p)) [] = Inr rp \<and>
          \<not> ok rp \<longrightarrow>
          merge_of originalFetch sched cfg x =
            Inl (Error (str ''Failed to load '' @
                        part_path (full_path cfg (name (files cfg ! x))) (Suc p) @
                        str '': '' @ decimal (status rp))))"
proof -
  from mergeSplitFiles_fails [OF assms(9,10), of "fst (sched x)" "snd (sched x)"]
  obtain err where
    err: "merge_of originalFetch sched cfg x = Inl err"
    unfolding merge_of_def by blast
  then have 1: "\<exists>err. merge_of originalFetch sched cfg x = Inl err" by blast
  from err have 2: "\<forall>st. mergedFiles (settle originalFetch sched cfg st x) = mergedFiles st"
    by (simp add: settle_failed_store)
  from mergeSplitFiles_succeeds [of "parts (files cfg ! y)" originalFetch
      "full_path cfg (name (files cfg ! y))" "fst (sched y)" "snd (sched y)", OF assms(11)]
  obtain buffer where
    "merge_of originalFetch sched cfg y = Inr buffer"
    unfolding merge_of_def by blast
  with assms(12,13) have oy: "outcome originalFetch sched cfg y = Ready"
    by (simp add: outcome_def)
  from err have ox: "outcome originalFetch sched cfg x = Failed"
    by (simp add: outcome_def)
  have ne: "files cfg \<noteq> []" using assms(5) by auto
  have fin: "final = foldl (settle originalFetch sched cfg) (start_merges cfg st0) order"
    using ne by (simp add: assms(4) autoMergeFiles_def)
  have plain: "proto (mergedFiles (start_merges cfg st0)) = None"
    using assms(3) by simp
  have others: "\<forall>j\<in>set order. j < length (files cfg) \<longrightarrow> j \<noteq> i \<longrightarrow>
      name (files cfg ! j) \<noteq> name (files cfg ! i)" if "i < length (files cfg)" for i
    using distinct_names [OF assms(1) that] by blast
  have 3: "mergeStatus final (name (files cfg ! x)) = Some Failed"
    unfolding fin
    using status_final [OF assms(2) assms(5) others [OF assms(5)] assms(6) plain,
        of originalFetch sched] ox
    by simp
  have 4: "mergeStatus final (name (files cfg ! y)) = Some Ready"
    unfolding fin
    using status_final [OF assms(2) assms(7) others [OF assms(7)] assms(8) plain,
        of originalFetch sched] oy
    by simp
  have 5: "(\<forall>q<parts (files cfg ! x). \<exists>r.
              originalFetch (part_path (full_path cfg (name (files cfg ! x))) (Suc q)) [] = Inr r) \<and>
          (\<forall>q<p. \<exists>r.
              originalFetch (part_path (full_path cfg (name (files cfg ! x))) (Suc q)) [] = Inr r \<and>
              ok r) \<and>
          originalFetch (part_path (full_path cfg (name (files cfg ! x))) (Suc p)) [] = Inr rp \<and>
          \<not> ok rp \<longrightarrow>
          merge_of originalFetch sched cfg x =
            Inl (Error (str ''Failed to load '' @
                        part_path (full_path cfg (name (files cfg ! x))) (Suc p) @
                        str '': '' @ decimal (status rp)))"
    unfolding merge_of_def
    using mergeSplitFiles_names_part [of "parts (files cfg ! x)" originalFetch
        "full_path cfg (name (files cfg ! x))" p rp] assms(9)
    by blast
  from 1 2 3 4 5 show ?thesis by (intro conjI)
qed

lemma iso_paths:
  "full_path iso_cfg (str ''x.bin'') = str ''/a/x.bin''"
  "full_path iso_cfg (str ''y.bin'') = str ''/a/y.bin''"
  by (simp_all add: full_path_def iso_cfg_def str_def)

lemma iso_files:
  "length (files iso_cfg) = 2"
  "name (files iso_cfg ! 0) = str ''x.bin''" "parts (files iso_cfg ! 0) = 3"
  "name (files iso_cfg ! 1) = str ''y.bin''" "parts (files iso_cfg ! 1) = 1"
  "name (files iso_cfg ! Suc 0) = str ''y.bin''" "parts (files iso_cfg ! Suc 0) = 1"
  by (simp_all add: iso_cfg_def)

lemma iso_fetch_x2:
  "iso_fetch (part_path (str ''/a/x.bin'') (Suc (Suc 0))) [] =
     Inr \<lparr>ok = False, status = 404, arrayBuffer = Inr []\<rparr>"
  by (simp add: iso_fetch_def part_path_def decimal_digit str_def)

lemma iso_fetch_x1:
  "iso_fetch (part_path (str ''/a/x.bin'') (Suc 0)) [] =
     Inr \<lparr>ok = True, status = 200, arrayBuffer = Inr [1]\<rparr>"
  by (simp add: iso_fetch_def)

lemma iso_fetch_y1:
  "iso_fetch (part_path (str ''/a/y.bin'') (Suc 0)) [] =
     Inr \<lparr>ok = True, status = 200, arrayBuffer = Inr [7, 8]\<rparr>"
  by (simp add: iso_fetch_def part_path_def decimal_digit str_def)

lemma iso_fetch_resolves: "\<exists>r. iso_fetch url [] = Inr r"
  by (simp add: iso_fetch_def)

lemma iso_encoded:
  "encodeURIComponent (str ''x.bin'') = Some (str ''x.bin'')"
  "encodeURIComponent (str ''/a/x.bin'') = Some (str ''%2Fa%2Fx.bin'')"
  "encodeURIComponent (str ''y.bin'') = Some (str ''y.bin'')"
  "encodeURIComponent (str ''/a/y.bin'') = Some (str ''%2Fa%2Fy.bin'')"
  by (simp_all add: str_def unreserved_def utf8_encode_def escape_octets_def hexdigit_def)

lemma iso_basenames:
  "split_pop 47 (str ''x.bin'') = str ''x.bin''" "split_pop 47 (str ''y.bin'') = str ''y.bin''"
  by (simp_all add: split_pop_def str_def)

lemma iso_no_proto:
  "\<forall>j<length (files iso_cfg). proto_key \<notin> set (variants iso_cfg (files iso_cfg ! j))"
proof (intro allI impI)
  fix j assume "j < length (files iso_cfg)"
  then have "j < 2" by (simp add: iso_files)
  then consider "j = 0" | "j = Suc 0" by linarith
  then show "proto_key \<notin> set (variants iso_cfg (files iso_cfg ! j))"
  proof cases
    case 1
    have "variants iso_cfg (files iso_cfg ! 0)
        = [str ''x.bin'', str ''/a/x.bin'', str ''x.bin'', str ''x.bin'', str ''%2Fa%2Fx.bin'']"
      by (simp add: variants_def iso_files iso_paths iso_encoded iso_basenames)
    with 1 show ?thesis by (simp add: proto_key_def str_def)
  next
    case 2
    have "variants iso_cfg (files iso_cfg ! Suc 0)
        = [str ''y.bin'', str ''/a/y.bin'', str ''y.bin'', str ''y.bin'', str ''%2Fa%2Fy.bin'']"
      by (simp add: variants_def iso_files iso_paths iso_encoded iso_basenames)
    with 2 show ?thesis by (simp add: proto_key_def str_def)
  qed
qed

theorem failure_isolation_witness:
  "merge_of iso_fetch index_sched iso_cfg 0
     = Inl (Error (str ''Failed to load /a/x.bin.part2: 404'')) \<and>
   mergedFiles (settle iso_fetch index_sched iso_cfg init_state 0) = mergedFiles init_state \<and>
   mergeStatus iso_final (str ''x.bin'') = Some Failed \<and>
   mergeStatus iso_final (str ''y.bin'') = Some Ready"
proof -
  have h1: "distinct (map name (files iso_cfg))" by (simp add: iso_cfg_def str_def)
  have h0: "proto (mergedFiles init_state) = None" by (simp add: init_state_def)
  have hx: "0 < length (files iso_cfg)" "0 \<in> set [1, 0 :: nat]" by (simp_all add: iso_files)
  have hy: "1 < length (files iso_cfg)" "1 \<in> set [1, 0 :: nat]" by (simp_all add: iso_files)
  have hp: "1 < parts (files iso_cfg ! 0)" by (simp add: iso_files)
  have hf: "part_fails iso_fetch (part_path (full_path iso_cfg (name (files iso_cfg ! 0))) (Suc 1))"
    by (simp add: part_fails_def iso_files iso_paths iso_fetch_x2)
  have hs: "\<forall>q<parts (files iso_cfg ! 1). \<exists>r b.
      iso_fetch (part_path (full_path iso_cfg (name (files iso_cfg ! 1))) (Suc q)) [] = Inr r \<and>
      ok r \<and> arrayBuffer r = Inr b"
    by (simp add: iso_files iso_paths iso_fetch_y1)
  have he: "encodeURIComponent (name (files iso_cfg ! 1)) \<noteq> None"
    "encodeURIComponent (full_path iso_cfg (name (files iso_cfg ! 1))) \<noteq> None"
    by (simp_all add: iso_files iso_paths iso_encoded)
  note t = failure_isolation [OF h1 iso_no_proto h0 iso_final_def hx hy hp hf hs he,
      where rp = "\<lparr>ok = False, status = 404, arrayBuffer = Inr []\<rparr>"]
  have a1: "\<forall>q<parts (files iso_cfg ! 0). \<exists>r.
      iso_fetch (part_path (full_path iso_cfg (name (files iso_cfg ! 0))) (Suc q)) [] = Inr r"
    using iso_fetch_resolves by blast
  have a2: "\<forall>q<1. \<exists>r.
      iso_fetch (part_path (full_path iso_cfg (name (files iso_cfg ! 0))) (Suc q)) [] = Inr r \<and>
      ok r"
    by (simp add: iso_files iso_paths iso_fetch_x1)
  have a3: "iso_fetch (part_path (full_path iso_cfg (name (files iso_cfg ! 0))) (Suc 1)) []
      = Inr \<lparr>ok = False, status = 404, arrayBuffer = Inr []\<rparr>"
    by (simp add: iso_files iso_paths iso_fetch_x2)
  have msg: "str ''Failed to load '' @
      part_path (full_path iso_cfg (name (files iso_cfg ! 0))) (Suc 1) @ str '': '' @
      decimal (status \<lparr>ok = False, status = 404, arrayBuffer = Inr []\<rparr>)
      = str ''Failed to load /a/x.bin.part2: 404''"
    unfolding iso_files iso_paths
    by (simp add: part_path_def decimal_digit decimal.simps [of 404] decimal.simps [of 40] str_def)
  have a4: "\<not> ok \<lparr>ok = False, status = 404, arrayBuffer = Inr []\<rparr>" by simp
  note t2 = t [THEN conjunct2]
  note t3 = t2 [THEN conjunct2]
  note t4 = t3 [THEN conjunct2]
  note t5 = t4 [THEN conjunct2]
  have 1: "merge_of iso_fetch index_sched iso_cfg 0
      = Inl (Error (str ''Failed to load /a/x.bin.part2: 404''))"
    using t5 [THEN mp, OF conjI [OF a1 conjI [OF a2 conjI [OF a3 a4]]]]
    unfolding msg .
  have 2: "mergedFiles (settle iso_fetch index_sched iso_cfg init_state 0)
      = mergedFiles init_state"
    using t2 [THEN conjunct1, THEN spec, of init_state] .
  have 3: "mergeStatus iso_final (str ''x.bin'') = Some Failed"
    using t3 [THEN conjunct1] unfolding iso_files .
  have 4: "mergeStatus iso_final (str ''y.bin'') = Some Ready"
    using t4 [THEN conjunct1] unfolding iso_files .
  from 1 2 3 4 show ?thesis by (intro conjI)
qed

lemma merge_one_part:
  assumes "originalFetch (part_path filePath (Suc 0)) [] = Inr \<lparr>ok = True, status = s, arrayBuffer = Inr b\<rparr>"
  shows "mergeSplitFiles originalFetch o1 o2 filePath (Suc 0) = Inr b"
  using mergeSplitFiles_bodies [of "Suc 0" originalFetch filePath "\<lambda>i. b" o1 o2] assms
  by simp

lemma merge_one_part_404:
  assumes "originalFetch (part_path filePath (Suc 0)) [] = Inr \<lparr>ok = False, status = 404, arrayBuffer = a\<rparr>"
  shows "mergeSplitFiles originalFetch o1 o2 filePath (Suc 0)
         = Inl (Error (str ''Failed to load '' @ part_path filePath (Suc 0) @ str '': 404''))"
proof -
  have d: "decimal 404 = str ''404''"
    by (simp add: decimal_digit decimal.simps [of 404] decimal.simps [of 40] str_def)
  from mergeSplitFiles_names_part [of "Suc 0" originalFetch filePath 0
      "\<lparr>ok = False, status = 404, arrayBuffer = a\<rparr>" o1 o2] assms
  show ?thesis by (simp add: d str_def)
qed

lemma dup_files:
  "length (files dup_cfg) = 2" "files dup_cfg \<noteq> []"
  "name (files dup_cfg ! 0) = str ''a''" "parts (files dup_cfg ! 0) = Suc 0"
  "name (files dup_cfg ! Suc 0) = str ''a''" "parts (files dup_cfg ! Suc 0) = 2"
  "full_path dup_cfg (str ''a'') = str ''a''"
  by (simp_all add: dup_cfg_def full_path_def)

lemma dup_fetch_1:
  "dup_fetch (part_path (str ''a'') (Suc 0)) [] = Inr \<lparr>ok = True, status = 200, arrayBuffer = Inr [1]\<rparr>"
  by (simp add: dup_fetch_def)

lemma dup_fetch_2:
  "dup_fetch (part_path (str ''a'') (Suc (Suc 0))) [] = Inr \<lparr>ok = False, status = 404, arrayBuffer = Inr []\<rparr>"
  by (simp add: dup_fetch_def part_path_def decimal_digit)

lemma dup_merge_0: "merge_of dup_fetch index_sched dup_cfg 0 = Inr [1]"
  unfolding merge_of_def dup_files
  by (rule merge_one_part [of dup_fetch "str ''a''" 200 "[1]", OF dup_fetch_1])

lemma dup_message:
  "str ''Failed to load '' @ part_path (str ''a'') (Suc (Suc 0)) @ str '': '' @ decimal 404
   = str ''Failed to load a.part2: 404''"
  by (simp add: part_path_def decimal_digit decimal.simps [of 404] decimal.simps [of 40] str_def)

lemma dup_merge_1:
  "merge_of dup_fetch index_sched dup_cfg (Suc 0) = Inl (Error (str ''Failed to load a.part2: 404''))"
proof -
  have "mergeSplitFiles dup_fetch o1 o2 (str ''a'') 2
      = Inl (Error (str ''Failed to load '' @ part_path (str ''a'') (Suc (Suc 0)) @ str '': '' @
          decimal (status \<lparr>ok = False, status = 404, arrayBuffer = Inr []\<rparr>)))" for o1 o2
  proof (rule mergeSplitFiles_names_part [where p = "Suc 0"])
    show "\<forall>q<2. \<exists>r. dup_fetch (part_path (str ''a'') (Suc q)) [] = Inr r"
      by (simp add: dup_fetch_def)
    show "Suc 0 < 2" by simp
    show "dup_fetch (part_path (str ''a'') (Suc (Suc 0))) [] =
        Inr \<lparr>ok = False, status = 404, arrayBuffer = Inr []\<rparr>" by (rule dup_fetch_2)
    show "\<not> ok \<lparr>ok = False, status = 404, arrayBuffer = Inr []\<rparr>" by simp
    show "\<forall>q<Suc 0. \<exists>r. dup_fetch (part_path (str ''a'') (Suc q)) [] = Inr r \<and> ok r"
      by (simp add: dup_fetch_1)
  qed
  then show ?thesis
    unfolding merge_of_def dup_files using dup_message by simp
qed

lemma enc_a: "encodeURIComponent (str ''a'') = Some (str ''a'')"
  by (simp add: str_def unreserved_def)

lemma dup_outcomes:
  "outcome dup_fetch index_sched dup_cfg 0 = Ready"
  "outcome dup_fetch index_sched dup_cfg (Suc 0) = Failed"
  by (simp_all add: outcome_def dup_merge_0 dup_merge_1 dup_files enc_a)

lemma dup_no_proto:
  "proto_key \<notin> set (variants dup_cfg (files dup_cfg ! 0))"
  "proto_key \<notin> set (variants dup_cfg (files dup_cfg ! Suc 0))"
  by (simp_all add: variants_def dup_files enc_a split_pop_def)
     (simp_all add: proto_key_def str_def)

lemma dup_written_0: "str ''a'' \<in> set (written dup_fetch index_sched dup_cfg 0)"
  by (simp add: written_def dup_merge_0 variants_def dup_files)

lemma dup_written_1: "written dup_fetch index_sched dup_cfg (Suc 0) = []"
  by (simp add: written_def dup_merge_1)

lemma rej_merge:
  "mergeSplitFiles rej_fetch [0, 1] [0, 1] (str ''a'') 2 = Inl (HostError (str ''Failed to fetch''))"
proof -
  have 1: "rej_fetch (part_path (str ''a'') (Suc 0)) [] =
      Inr \<lparr>ok = False, status = 404, arrayBuffer = Inr []\<rparr>"
    by (simp add: rej_fetch_def)
  have 2: "rej_fetch (part_path (str ''a'') 2) [] = Inl (HostError (str ''Failed to fetch''))"
    by (simp add: rej_fetch_def part_path_def decimal_digit)
  have u: "[1..<Suc 2] = [Suc 0, 2]" by (simp add: upt_rec)
  show ?thesis
    unfolding mergeSplitFiles_def Let_def u
    by (simp add: 1 2 promise_all_def rejections_def)
qed

lemma sur_files:
  "length (files sur_cfg) = 1" "files sur_cfg \<noteq> []"
  "name (files sur_cfg ! 0) = [55296]" "parts (files sur_cfg ! 0) = Suc 0"
  "full_path sur_cfg [55296] = [55296]"
  by (simp_all add: sur_cfg_def full_path_def)

lemma sur_merge: "merge_of sur_fetch index_sched sur_cfg 0 = Inr [1]"
  unfolding merge_of_def sur_files
  by (rule merge_one_part [of sur_fetch "[55296]" 200 "[1]"]) (simp add: sur_fetch_def)

lemma sur_not_unreserved: "\<not> unreserved 55296"
  unfolding unreserved_def str_def by simp

lemma sur_not_encodable: "encodeURIComponent [55296] = None"
  by (simp add: sur_not_unreserved)

lemma sur_outcome: "outcome sur_fetch index_sched sur_cfg 0 = Failed"
  by (simp add: outcome_def sur_merge sur_files sur_not_unreserved)

lemma sur_variants: "variants sur_cfg (files sur_cfg ! 0) = [[55296], [55296], [55296]]"
  by (simp add: variants_def sur_files sur_not_unreserved split_pop_def)

lemma sur_no_proto: "proto_key \<notin> set (variants sur_cfg (files sur_cfg ! 0))"
  unfolding sur_variants by (simp add: proto_key_def str_def)

lemma sur_written: "[55296] \<in> set (written sur_fetch index_sched sur_cfg 0)"
  by (simp add: written_def sur_merge sur_variants)

lemma sur_final:
  "mergeStatus (autoMergeFiles sur_fetch index_sched [0] sur_cfg init_state) [55296] = Some Failed"
  "getMergedFile (mergedFiles (autoMergeFiles sur_fetch index_sched [0] sur_cfg init_state))
     [55296] = Inr (Some (Buffer [1]))"
proof -
  have l: "0 < length (files sur_cfg)" by (simp add: sur_files)
  show "mergeStatus (autoMergeFiles sur_fetch index_sched [0] sur_cfg init_state) [55296]
      = Some Failed"
    by (simp add: autoMergeFiles_def sur_files settle_status [OF l _ sur_no_proto] sur_outcome
        init_state_def)
  have "map_of (entries (mergedFiles (autoMergeFiles sur_fetch index_sched [0] sur_cfg
      init_state))) [55296] = Some [1]"
    by (simp add: autoMergeFiles_def sur_files settle_store [OF l _ sur_no_proto] sur_written
        sur_merge init_state_def)
  then show "getMergedFile
      (mergedFiles (autoMergeFiles sur_fetch index_sched [0] sur_cfg init_state)) [55296]
      = Inr (Some (Buffer [1]))"
    by (rule getMergedFile_exact)
qed

lemma pro_files:
  "length (files pro_cfg) = 1" "files pro_cfg \<noteq> []"
  "name (files pro_cfg ! 0) = str ''__proto__''" "parts (files pro_cfg ! 0) = Suc 0"
  "full_path pro_cfg (str ''__proto__'') = str ''__proto__''"
  by (simp_all add: pro_cfg_def full_path_def)

lemma pro_merge:
  "merge_of dup_fetch index_sched pro_cfg 0
   = Inl (Error (str ''Failed to load __proto__.part1: 404''))"
proof -
  have f: "dup_fetch (part_path (str ''__proto__'') (Suc 0)) [] =
      Inr \<lparr>ok = False, status = 404, arrayBuffer = Inr []\<rparr>"
    by (simp add: dup_fetch_def part_path_def str_def)
  have m: "str ''Failed to load '' @ part_path (str ''__proto__'') (Suc 0) @ str '': 404''
      = str ''Failed to load __proto__.part1: 404''"
    by (simp add: part_path_def decimal_digit str_def)
  show ?thesis
    unfolding merge_of_def pro_files
    using merge_one_part_404 [of dup_fetch "str ''__proto__''" "Inr []", OF f] unfolding m .
qed

lemma pro_final:
  "mergeStatus (autoMergeFiles dup_fetch index_sched [0] pro_cfg init_state) (str ''__proto__'')
   = None"
proof -
  have l: "0 < length (files pro_cfg)" by (simp add: pro_files)
  have n: "str ''__proto__'' = proto_key" by (simp add: proto_key_def)
  show ?thesis
    unfolding n
    by (simp add: autoMergeFiles_def pro_files settle_failed [OF l pro_merge]
        start_merges_status init_state_def)
qed

lemma acc_files:
  "length (files acc_cfg) = 2" "files acc_cfg \<noteq> []"
  "name (files acc_cfg ! 0) = str ''p/__proto__''" "parts (files acc_cfg ! 0) = Suc 0"
  "name (files acc_cfg ! Suc 0) = str ''byteLength''" "parts (files acc_cfg ! Suc 0) = Suc 0"
  "full_path acc_cfg k = k"
  by (simp_all add: acc_cfg_def full_path_def)

lemma acc_merges:
  "merge_of sur_fetch index_sched acc_cfg 0 = Inr [1]"
  "merge_of sur_fetch index_sched acc_cfg (Suc 0) = Inr [1]"
  unfolding merge_of_def acc_files
  by (rule merge_one_part [of sur_fetch _ 200 "[1]"], simp add: sur_fetch_def)+

lemma acc_encoded:
  "encodeURIComponent (str ''p/__proto__'') = Some (str ''p%2F__proto__'')"
  "encodeURIComponent (str ''byteLength'') = Some (str ''byteLength'')"
  by (simp_all add: str_def unreserved_def utf8_encode_def escape_octets_def hexdigit_def)

lemma acc_first_keys:
  "then_keys acc_cfg (files acc_cfg ! 0)
   = [Some (str ''p/__proto__''), Some (str ''p/__proto__''), Some proto_key,
      Some (str ''p%2F__proto__''), Some (str ''p%2F__proto__'')]"
  by (simp add: then_keys_def acc_files acc_encoded Let_def)
     (simp add: split_pop_def proto_key_def str_def)

lemma acc_first:
  assumes "mergedFiles st = plain_object []"
  shows "proto (mergedFiles (settle sur_fetch index_sched acc_cfg st 0)) = Some [1]"
    and "map_of (entries (mergedFiles (settle sur_fetch index_sched acc_cfg st 0)))
           (str ''byteLength'') = None"
    and "mergeStatus (settle sur_fetch index_sched acc_cfg st 0)
         = (mergeStatus st)(str ''p/__proto__'' \<mapsto> Ready)"
proof -
  have l: "0 < length (files acc_cfg)" by (simp add: acc_files)
  have k: "str ''p/__proto__'' \<noteq> proto_key" "str ''p%2F__proto__'' \<noteq> proto_key"
    "str ''p/__proto__'' \<noteq> str ''byteLength''" "str ''p%2F__proto__'' \<noteq> str ''byteLength''"
    "str ''p/__proto__'' \<noteq> str ''p%2F__proto__''" "str ''p%2F__proto__'' \<noteq> str ''p/__proto__''"
    "proto_key \<noteq> str ''p/__proto__''" "str ''p%2F__proto__'' \<notin> set arraybuffer_accessors"
    by (simp_all add: proto_key_def arraybuffer_accessors_def str_def)
  have i: "array_index (str ''p/__proto__'') = None" "array_index (str ''p%2F__proto__'') = None"
    by (simp_all add: array_index_def str_def)
  have a: "assign_all (then_keys acc_cfg (files acc_cfg ! 0)) [1] (plain_object [])
      = (\<lparr>entries = [(str ''p/__proto__'', [1]), (str ''p%2F__proto__'', [1])],
          proto = Some [1]\<rparr>, True)"
    unfolding acc_first_keys
    by (simp add: store_set_def obj_set_def plain_object_def k i)
  show "proto (mergedFiles (settle sur_fetch index_sched acc_cfg st 0)) = Some [1]"
    by (simp add: settle_fulfilled [OF l acc_merges(1)] on_fulfilled_store assms a)
  show "map_of (entries (mergedFiles (settle sur_fetch index_sched acc_cfg st 0)))
      (str ''byteLength'') = None"
    using k by (simp add: settle_fulfilled [OF l acc_merges(1)] on_fulfilled_store assms a)
  show "mergeStatus (settle sur_fetch index_sched acc_cfg st 0)
      = (mergeStatus st)(str ''p/__proto__'' \<mapsto> Ready)"
    using k by (simp add: settle_fulfilled [OF l acc_merges(1)] on_fulfilled_status assms a
        acc_files status_set_def)
qed

lemma acc_second:
  assumes "proto (mergedFiles st) = Some p"
    and "map_of (entries (mergedFiles st)) (str ''byteLength'') = None"
  shows "mergeStatus (settle sur_fetch index_sched acc_cfg st (Suc 0))
         = (mergeStatus st)(str ''byteLength'' \<mapsto> Failed)"
proof -
  have l: "Suc 0 < length (files acc_cfg)" by (simp add: acc_files)
  have k: "str ''byteLength'' \<noteq> proto_key" by (simp add: proto_key_def str_def)
  have m: "str ''byteLength'' \<in> set arraybuffer_accessors"
    by (simp add: arraybuffer_accessors_def)
  have "store_set (str ''byteLength'') [1] (mergedFiles st) = Inl TypeError"
    using assms m by (simp add: store_set_def)
  then have "assign_all (then_keys acc_cfg (files acc_cfg ! Suc 0)) [1] (mergedFiles st)
      = (mergedFiles st, False)"
    by (simp add: then_keys_def acc_files Let_def)
  with k show ?thesis
    by (simp add: settle_fulfilled [OF l acc_merges(2)] on_fulfilled_status acc_files
        status_set_def)
qed

lemma acc_final:
  "mergeStatus (autoMergeFiles sur_fetch index_sched [0, 1] acc_cfg init_state)
     (str ''byteLength'') = Some Failed"
proof -
  let ?s0 = "start_merges acc_cfg init_state"
  have 0: "mergedFiles ?s0 = plain_object []" by (simp add: init_state_def)
  from acc_second [OF acc_first(1) [OF 0] acc_first(2) [OF 0]] show ?thesis
    by (simp add: autoMergeFiles_def acc_files)
qed

text \<open>
  The claim as stated fails when two entries share a name: the entry with two parts
  fails on its second part, yet when it settles first the status of its name ends as
  \<^verbatim>\<open>'ready'\<close> with a buffer stored under that name, and when it settles last the entry
  whose only part succeeded ends as \<^verbatim>\<open>'failed'\<close>. When a part fetch rejects, the error
  is the reason of the rejection; it names neither the part that answered 404 nor a status.
  A file whose name cannot be URI-encoded ends as \<^verbatim>\<open>'failed'\<close> although its only part
  succeeded, with its buffer already stored under its name. A file named \<^verbatim>\<open>__proto__\<close>
  whose part answers 404 has no status at the end, neither \<^verbatim>\<open>'failed'\<close> nor any other.
  And after a file whose basename is \<^verbatim>\<open>__proto__\<close> has made its buffer the prototype of
  the store, a file named \<^verbatim>\<open>byteLength\<close> ends as \<^verbatim>\<open>'failed'\<close> although its only part
  succeeded.
\<close>

theorem failure_isolation_counterexample:
  "merge_of dup_fetch index_sched dup_cfg 0 = Inr [1] \<and>
   merge_of dup_fetch index_sched dup_cfg 1 = Inl (Error (str ''Failed to load a.part2: 404'')) \<and>
   mergeStatus (autoMergeFiles dup_fetch index_sched [1, 0] dup_cfg init_state) (str ''a'')
     = Some Ready \<and>
   getMergedFile (mergedFiles (autoMergeFiles dup_fetch index_sched [1, 0] dup_cfg init_state))
       (str ''a'') = Inr (Some (Buffer [1])) \<and>
   mergeStatus (autoMergeFiles dup_fetch index_sched [0, 1] dup_cfg init_state) (str ''a'')
     = Some Failed \<and>
   rej_fetch (part_path (str ''a'') 1) [] = Inr \<lparr>ok = False, status = 404, arrayBuffer = Inr []\<rparr> \<and>
   mergeSplitFiles rej_fetch [0, 1] [0, 1] (str ''a'') 2 = Inl (HostError (str ''Failed to fetch'')) \<and>
   merge_of sur_fetch index_sched sur_cfg 0 = Inr [1] \<and>
   mergeStatus (autoMergeFiles sur_fetch index_sched [0] sur_cfg init_state) [55296]
     = Some Failed \<and>
   getMergedFile (mergedFiles (autoMergeFiles sur_fetch index_sched [0] sur_cfg init_state))
       [55296] = Inr (Some (Buffer [1])) \<and>
   merge_of dup_fetch index_sched pro_cfg 0
     = Inl (Error (str ''Failed to load __proto__.part1: 404'')) \<and>
   mergeStatus (autoMergeFiles dup_fetch index_sched [0] pro_cfg init_state) (str ''__proto__'')
     = None \<and>
   merge_of sur_fetch index_sched acc_cfg 1 = Inr [1] \<and>
   mergeStatus (autoMergeFiles sur_fetch index_sched [0, 1] acc_cfg init_state)
     (str ''byteLength'') = Some Failed"
proof -
  have l: "0 < length (files dup_cfg)" "Suc 0 < length (files dup_cfg)"
    by (simp_all add: dup_files)
  have 3: "mergeStatus (autoMergeFiles dup_fetch index_sched [1, 0] dup_cfg init_state) (str ''a'')
     = Some Ready"
    by (simp add: autoMergeFiles_def dup_files settle_status [OF l(1) _ dup_no_proto(1)]
        settle_status [OF l(2) _ dup_no_proto(2)] settle_plain_proto [OF l(2) _ dup_no_proto(2)]
        dup_outcomes init_state_def)
  have "map_of (entries (mergedFiles (autoMergeFiles dup_fetch index_sched [1, 0] dup_cfg
      init_state))) (str ''a'') = Some [1]"
    by (simp add: autoMergeFiles_def dup_files settle_store [OF l(1) _ dup_no_proto(1)]
        settle_plain_proto [OF l(2) _ dup_no_proto(2)] dup_written_0 dup_merge_0 init_state_def)
  then have 4: "getMergedFile
      (mergedFiles (autoMergeFiles dup_fetch index_sched [1, 0] dup_cfg init_state))
      (str ''a'') = Inr (Some (Buffer [1]))"
    by (rule getMergedFile_exact)
  have 5: "mergeStatus (autoMergeFiles dup_fetch index_sched [0, 1] dup_cfg init_state) (str ''a'')
     = Some Failed"
    by (simp add: autoMergeFiles_def dup_files settle_status [OF l(1) _ dup_no_proto(1)]
        settle_status [OF l(2) _ dup_no_proto(2)] settle_plain_proto [OF l(1) _ dup_no_proto(1)]
        dup_outcomes init_state_def)
  have 6: "rej_fetch (part_path (str ''a'') 1) [] =
      Inr \<lparr>ok = False, status = 404, arrayBuffer = Inr []\<rparr>"
    by (simp add: rej_fetch_def)
  from dup_merge_0 dup_merge_1 3 4 5 6 rej_merge sur_merge sur_final pro_merge pro_final
    acc_merges(2) acc_final
  show ?thesis by simp
qed

text \<open>
  C8, as amended: for a configured file whose status is \<^verbatim>\<open>'ready'\<close> at the end, when no
  other configured file assigns one of its five keys, the lookup of each of the five keys
  (name, full path, basename, encoded name, encoded full path) returns the buffer that
  the merge of that file produced.
\<close>

theorem published_variants_lookup:
  assumes "final = autoMergeFiles originalFetch sched order cfg
                     \<lparr>mergedFiles = m0, mergeStatus = Map.empty\<rparr>"
    and "i < length (files cfg)"
    and "mergeStatus final (name (files cfg ! i)) = Some Ready"
    and "\<forall>j<length (files cfg). j \<noteq> i \<longrightarrow>
           set (written originalFetch sched cfg j) \<inter> set (variants cfg (files cfg ! i)) = {}"
  shows "\<exists>buffer encName encPath.
           merge_of originalFetch sched cfg i = Inr buffer \<and>
           encodeURIComponent (name (files cfg ! i)) = Some encName \<and>
           encodeURIComponent (full_path cfg (name (files cfg ! i))) = Some encPath \<and>
           getMergedFile (mergedFiles final) (name (files cfg ! i))
             = Inr (Some (Buffer buffer)) \<and>
           getMergedFile (mergedFiles final) (full_path cfg (name (files cfg ! i)))
             = Inr (Some (Buffer buffer)) \<and>
           getMergedFile (mergedFiles final) (split_pop 47 (name (files cfg ! i)))
             = Inr (Some (Buffer buffer)) \<and>
           getMergedFile (mergedFiles final) encName = Inr (Some (Buffer buffer)) \<and>
           getMergedFile (mergedFiles final) encPath = Inr (Some (Buffer buffer))"
proof -
  let ?n = "name (files cfg ! i)"
  let ?settle = "settle originalFetch sched cfg"
  define good where "good st \<longleftrightarrow>
      (mergeStatus st ?n = Some Ready \<longrightarrow>
       (\<exists>b. merge_of originalFetch sched cfg i = Inr b \<and>
            None \<notin> set (then_keys cfg (files cfg ! i)) \<and>
            (\<forall>k\<in>set (variants cfg (files cfg ! i)). slot (mergedFiles st) k = Some b)))"
    for st :: state
  have own: "?n \<in> set (variants cfg (files cfg ! i))" by (simp add: variants_def)
  have step: "good (?settle st j)" if g: "good st" for st :: state and j
    unfolding good_def
  proof
    assume r: "mergeStatus (?settle st j) ?n = Some Ready"
    from settle_Ready [OF r]
    consider "mergeStatus st ?n = Some Ready"
      | b where "j < length (files cfg)" "?n = name (files cfg ! j)"
          "merge_of originalFetch sched cfg j = Inr b"
          "None \<notin> set (then_keys cfg (files cfg ! j))"
          "\<forall>k\<in>set (variants cfg (files cfg ! j)). slot (mergedFiles (?settle st j)) k = Some b"
      by blast
    then show "\<exists>b. merge_of originalFetch sched cfg i = Inr b \<and>
        None \<notin> set (then_keys cfg (files cfg ! i)) \<and>
        (\<forall>k\<in>set (variants cfg (files cfg ! i)). slot (mergedFiles (?settle st j)) k = Some b)"
    proof cases
      case 1
      with g obtain b where b: "merge_of originalFetch sched cfg i = Inr b"
        "None \<notin> set (then_keys cfg (files cfg ! i))"
        "\<forall>k\<in>set (variants cfg (files cfg ! i)). slot (mergedFiles st) k = Some b"
        unfolding good_def by blast
      have "slot (mergedFiles (?settle st j)) k = Some b"
        if k: "k \<in> set (variants cfg (files cfg ! i))" for k
      proof -
        from settle_slot [of originalFetch sched cfg st j k]
        consider "slot (mergedFiles (?settle st j)) k = slot (mergedFiles st) k"
          | b' where "j < length (files cfg)" "merge_of originalFetch sched cfg j = Inr b'"
              "k \<in> set (variants cfg (files cfg ! j))"
              "slot (mergedFiles (?settle st j)) k = Some b'"
          by blast
        then show ?thesis
        proof cases
          case 1
          with b(3) k show ?thesis by simp
        next
          case 2
          have "j = i"
          proof (rule ccontr)
            assume "j \<noteq> i"
            with assms(4) 2(1) have "set (written originalFetch sched cfg j)
                \<inter> set (variants cfg (files cfg ! i)) = {}" by blast
            moreover from 2(2,3) have "k \<in> set (written originalFetch sched cfg j)"
              by (simp add: written_def)
            ultimately show False using k by blast
          qed
          with 2(2,4) b(1) show ?thesis by simp
        qed
      qed
      with b(1,2) show ?thesis by blast
    next
      case 2
      have "j = i"
      proof (rule ccontr)
        assume "j \<noteq> i"
        with assms(4) 2(1) have "set (written originalFetch sched cfg j)
            \<inter> set (variants cfg (files cfg ! i)) = {}" by blast
        moreover from 2(2,3) have "?n \<in> set (written originalFetch sched cfg j)"
          by (simp add: written_def variants_def)
        ultimately show False using own by blast
      qed
      with 2(3,4,5) show ?thesis by blast
    qed
  qed
  have steps: "good st \<Longrightarrow> good (foldl ?settle st js)" for st :: state and js
    by (induction js arbitrary: st) (simp_all add: step)
  have ne: "files cfg \<noteq> []" using assms(2) by auto
  have fin: "final = foldl ?settle
      (start_merges cfg \<lparr>mergedFiles = m0, mergeStatus = Map.empty\<rparr>) order"
    using ne by (simp add: assms(1) autoMergeFiles_def)
  have "good (start_merges cfg \<lparr>mergedFiles = m0, mergeStatus = Map.empty\<rparr>)"
    by (simp add: good_def start_merges_status)
  from steps [OF this, of order] have "good final" by (simp add: fin)
  with assms(3) obtain buffer where
    b: "merge_of originalFetch sched cfg i = Inr buffer"
    and e: "None \<notin> set (then_keys cfg (files cfg ! i))"
    and s: "\<forall>k\<in>set (variants cfg (files cfg ! i)). slot (mergedFiles final) k = Some buffer"
    unfolding good_def by blast
  from e obtain encName encPath where
    e1: "encodeURIComponent ?n = Some encName"
    and e2: "encodeURIComponent (full_path cfg ?n) = Some encPath"
    by (cases "encodeURIComponent ?n"; cases "encodeURIComponent (full_path cfg ?n)")
       (simp_all add: then_keys_def Let_def)
  have v: "variants cfg (files cfg ! i) =
      [?n, full_path cfg ?n, split_pop 47 ?n, encName, encPath]"
    by (simp add: variants_def e1 e2)
  have look: "getMergedFile (mergedFiles final) key = Inr (Some (Buffer buffer))"
    if "key \<in> set (variants cfg (files cfg ! i))" for key
    using s that by (intro getMergedFile_slot) blast
  show ?thesis
    using b e1 e2 look unfolding v by (intro exI [of _ buffer] exI [of _ encName]
        exI [of _ encPath]) simp
qed

theorem published_variants_lookup_witness:
  "getMergedFile (mergedFiles model_final) (str ''model.bin'')
     = Inr (Some (Buffer [1, 2, 3, 4, 5])) \<and>
   getMergedFile (mergedFiles model_final) (str ''/assets/model.bin'')
     = Inr (Some (Buffer [1, 2, 3, 4, 5])) \<and>
   getMergedFile (mergedFiles model_final) (split_pop 47 (str ''model.bin''))
     = Inr (Some (Buffer [1, 2, 3, 4, 5])) \<and>
   getMergedFile (mergedFiles model_final) (str ''%2Fassets%2Fmodel.bin'')
     = Inr (Some (Buffer [1, 2, 3, 4, 5]))"
proof -
  have i: "0 < length (files model_cfg)" by (simp add: model_files)
  have r: "mergeStatus model_final (name (files model_cfg ! 0)) = Some Ready"
    unfolding model_files by (rule model_final_status)
  have d: "\<forall>j<length (files model_cfg). j \<noteq> 0 \<longrightarrow>
      set (written model_fetch model_sched model_cfg j) \<inter> set (variants model_cfg (files model_cfg ! 0))
      = {}"
    by (simp add: model_files)
  from published_variants_lookup [OF model_final_def i r d]
  obtain buffer encName encPath where
    b: "merge_of model_fetch model_sched model_cfg 0 = Inr buffer"
    and e: "encodeURIComponent (name (files model_cfg ! 0)) = Some encName"
      "encodeURIComponent (full_path model_cfg (name (files model_cfg ! 0))) = Some encPath"
    and g: "getMergedFile (mergedFiles model_final) (name (files model_cfg ! 0))
         = Inr (Some (Buffer buffer))"
      "getMergedFile (mergedFiles model_final) (full_path model_cfg (name (files model_cfg ! 0)))
         = Inr (Some (Buffer buffer))"
      "getMergedFile (mergedFiles model_final) (split_pop 47 (name (files model_cfg ! 0)))
         = Inr (Some (Buffer buffer))"
      "getMergedFile (mergedFiles model_final) encName = Inr (Some (Buffer buffer))"
      "getMergedFile (mergedFiles model_final) encPath = Inr (Some (Buffer buffer))"
    by blast
  from b have "buffer = [1, 2, 3, 4, 5]" by (simp add: model_merge_of)
  moreover from e(2) have "encPath = str ''%2Fassets%2Fmodel.bin''"
    unfolding model_files model_full_path model_encodable by simp
  ultimately show ?thesis
    using g by (simp add: model_files model_full_path)
qed

lemma col_files:
  "length (files col_cfg) = 2" "files col_cfg \<noteq> []"
  "name (files col_cfg ! 0) = str ''a/d.bin''" "parts (files col_cfg ! 0) = Suc 0"
  "name (files col_cfg ! Suc 0) = str ''b/d.bin''" "parts (files col_cfg ! Suc 0) = Suc 0"
  "full_path col_cfg (str ''a/d.bin'') = str ''a/d.bin''"
  "full_path col_cfg (str ''b/d.bin'') = str ''b/d.bin''"
  by (simp_all add: col_cfg_def full_path_def)

lemma col_fetch_a:
  "col_fetch (part_path (str ''a/d.bin'') (Suc 0)) [] =
     Inr \<lparr>ok = True, status = 200, arrayBuffer = Inr [1]\<rparr>"
  by (simp add: col_fetch_def)

lemma col_fetch_b:
  "col_fetch (part_path (str ''b/d.bin'') (Suc 0)) [] =
     Inr \<lparr>ok = True, status = 200, arrayBuffer = Inr [2]\<rparr>"
  by (simp add: col_fetch_def part_path_def str_def)

lemma col_merge_0: "merge_of col_fetch index_sched col_cfg 0 = Inr [1]"
  unfolding merge_of_def col_files
  by (rule merge_one_part [of col_fetch "str ''a/d.bin''" 200 "[1]", OF col_fetch_a])

lemma col_merge_1: "merge_of col_fetch index_sched col_cfg (Suc 0) = Inr [2]"
  unfolding merge_of_def col_files
  by (rule merge_one_part [of col_fetch "str ''b/d.bin''" 200 "[2]", OF col_fetch_b])

lemma col_encodable:
  "encodeURIComponent (str ''a/d.bin'') = Some (str ''a%2Fd.bin'')"
  "encodeURIComponent (str ''b/d.bin'') = Some (str ''b%2Fd.bin'')"
  by (simp_all add: str_def unreserved_def utf8_encode_def escape_octets_def hexdigit_def)

lemma col_basenames:
  "split_pop 47 (str ''a/d.bin'') = str ''d.bin''"
  "split_pop 47 (str ''b/d.bin'') = str ''d.bin''"
  by (simp_all add: split_pop_def str_def)

lemma col_variants:
  "variants col_cfg (files col_cfg ! 0)
     = [str ''a/d.bin'', str ''a/d.bin'', str ''d.bin'', str ''a%2Fd.bin'', str ''a%2Fd.bin'']"
  "variants col_cfg (files col_cfg ! Suc 0)
     = [str ''b/d.bin'', str ''b/d.bin'', str ''d.bin'', str ''b%2Fd.bin'', str ''b%2Fd.bin'']"
  by (simp_all add: variants_def col_files col_encodable col_basenames)

lemma col_no_proto:
  "proto_key \<notin> set (variants col_cfg (files col_cfg ! 0))"
  "proto_key \<notin> set (variants col_cfg (files col_cfg ! Suc 0))"
  unfolding col_variants by (simp_all add: proto_key_def str_def)

lemma col_written:
  "written col_fetch index_sched col_cfg 0
     = [str ''a/d.bin'', str ''a/d.bin'', str ''d.bin'', str ''a%2Fd.bin'', str ''a%2Fd.bin'']"
  "written col_fetch index_sched col_cfg (Suc 0)
     = [str ''b/d.bin'', str ''b/d.bin'', str ''d.bin'', str ''b%2Fd.bin'', str ''b%2Fd.bin'']"
  by (simp_all add: written_def col_merge_0 col_merge_1 col_variants)

lemma col_outcomes:
  "outcome col_fetch index_sched col_cfg 0 = Ready"
  "outcome col_fetch index_sched col_cfg (Suc 0) = Ready"
  by (simp_all add: outcome_def col_merge_0 col_merge_1 col_files col_encodable)

text \<open>
  The claim as stated fails when two files share a basename: both end as \<^verbatim>\<open>'ready'\<close>,
  and the lookup of the basename of the first returns the buffer of the second.
\<close>

theorem published_variants_lookup_counterexample:
  "mergeStatus col_final (str ''a/d.bin'') = Some Ready \<and>
   merge_of col_fetch index_sched col_cfg 0 = Inr [1] \<and>
   split_pop 47 (str ''a/d.bin'') = str ''d.bin'' \<and>
   getMergedFile (mergedFiles col_final) (str ''a/d.bin'') = Inr (Some (Buffer [1])) \<and>
   getMergedFile (mergedFiles col_final) (str ''d.bin'') = Inr (Some (Buffer [2]))"
proof -
  have l: "0 < length (files col_cfg)" "Suc 0 < length (files col_cfg)"
    by (simp_all add: col_files)
  have ne: "str ''a/d.bin'' \<noteq> str ''b/d.bin''" by (simp add: str_def)
  note plain = settle_plain_proto [OF l(1) _ col_no_proto(1)]
  have 1: "mergeStatus col_final (str ''a/d.bin'') = Some Ready"
    using ne
    by (simp add: col_final_def autoMergeFiles_def col_files
        settle_status [OF l(1) _ col_no_proto(1)] settle_status [OF l(2) _ col_no_proto(2)]
        plain col_outcomes init_state_def)
  have in0: "str ''a/d.bin'' \<in> set (written col_fetch index_sched col_cfg 0)"
    by (simp add: col_written)
  have out1: "str ''a/d.bin'' \<notin> set (written col_fetch index_sched col_cfg (Suc 0))"
    by (simp add: col_written) (simp add: str_def)
  have in1: "str ''d.bin'' \<in> set (written col_fetch index_sched col_cfg (Suc 0))"
    by (simp add: col_written)
  have "map_of (entries (mergedFiles col_final)) (str ''a/d.bin'') = Some [1]"
    by (simp add: col_final_def autoMergeFiles_def col_files
        settle_store [OF l(1) _ col_no_proto(1)] settle_store [OF l(2) _ col_no_proto(2)]
        plain in0 out1 col_merge_0 init_state_def)
  then have 4: "getMergedFile (mergedFiles col_final) (str ''a/d.bin'') = Inr (Some (Buffer [1]))"
    by (rule getMergedFile_exact)
  have "map_of (entries (mergedFiles col_final)) (str ''d.bin'') = Some [2]"
    by (simp add: col_final_def autoMergeFiles_def col_files
        settle_store [OF l(2) _ col_no_proto(2)] plain in1 col_merge_1 init_state_def)
  then have 5: "getMergedFile (mergedFiles col_final) (str ''d.bin'') = Inr (Some (Buffer [2]))"
    by (rule getMergedFile_exact)
  from 1 col_merge_0 col_basenames(1) 4 5 show ?thesis by (intro conjI)
qed

end
